theory Spec2Isabelle
  imports Complex_Main "HOL-Library.Stream"
begin

section \<open>Constants and library types\<close>

text \<open>
  The simulation core of \<^verbatim>\<open>galaga_shooter.py\<close>. Python integers are \<open>int\<close>, Python floats
  are idealised as \<open>real\<close> (no rounding), the module globals and the locals of
  \<^verbatim>\<open>run_game\<close> form one record \<open>world\<close> that every method takes and returns.
  Drawing (surfaces, images, explosions, the star field) is left out: it never feeds
  back into the simulation state.
\<close>

abbreviation WINDOW_WIDTH :: int where "WINDOW_WIDTH \<equiv> 600"
abbreviation WINDOW_HEIGHT :: int where "WINDOW_HEIGHT \<equiv> 800"

text \<open>
  \<^verbatim>\<open>pygame.Rect\<close>: integer position and size, with the derived attributes the
  source reads and assigns. Assigning \<^verbatim>\<open>centerx\<close> or \<^verbatim>\<open>bottom\<close> moves the rectangle and
  keeps its size.
\<close>

record rect =
  rect_x :: int
  rect_y :: int
  width :: int
  height :: int

definition Rect :: "int \<Rightarrow> int \<Rightarrow> int \<Rightarrow> int \<Rightarrow> rect" where
  "Rect x y w h = \<lparr>rect_x = x, rect_y = y, width = w, height = h\<rparr>"

definition left :: "rect \<Rightarrow> int" where "left r = rect_x r"
definition top :: "rect \<Rightarrow> int" where "top r = rect_y r"
definition right :: "rect \<Rightarrow> int" where "right r = rect_x r + width r"
definition bottom :: "rect \<Rightarrow> int" where "bottom r = rect_y r + height r"
definition centerx :: "rect \<Rightarrow> int" where "centerx r = rect_x r + width r div 2"
definition centery :: "rect \<Rightarrow> int" where "centery r = rect_y r + height r div 2"

definition set_centerx :: "int \<Rightarrow> rect \<Rightarrow> rect" where
  "set_centerx v r = r\<lparr>rect_x := v - width r div 2\<rparr>"

definition set_bottom :: "int \<Rightarrow> rect \<Rightarrow> rect" where
  "set_bottom v r = r\<lparr>rect_y := v - height r\<rparr>"

definition set_top :: "int \<Rightarrow> rect \<Rightarrow> rect" where
  "set_top v r = r\<lparr>rect_y := v\<rparr>"

text \<open>
  \<^verbatim>\<open>Rect.colliderect\<close>: two rectangles overlap when their interiors intersect; a
  rectangle of zero width or height overlaps nothing.
\<close>

definition colliderect :: "rect \<Rightarrow> rect \<Rightarrow> bool" where
  "colliderect a b =
     (if width a = 0 \<or> height a = 0 \<or> width b = 0 \<or> height b = 0 then False
      else min (rect_x a) (rect_x a + width a) < max (rect_x b) (rect_x b + width b)
         \<and> min (rect_y a) (rect_y a + height a) < max (rect_y b) (rect_y b + height b)
         \<and> max (rect_x a) (rect_x a + width a) > min (rect_x b) (rect_x b + width b)
         \<and> max (rect_y a) (rect_y a + height a) > min (rect_y b) (rect_y b + height b))"

text \<open>Python's \<^verbatim>\<open>int(x)\<close> on a float truncates toward zero.\<close>

definition py_int :: "real \<Rightarrow> int" where
  "py_int x = (if 0 \<le> x then \<lfloor>x\<rfloor> else \<lceil>x\<rceil>)"

datatype sound =
  ShootSound | ExplosionSound | HitSound | CaptureSound | RescueSound | WaveCompleteSound

section \<open>Entities\<close>

text \<open>
  \<^verbatim>\<open>class Player\<close>. \<open>captured_by\<close> refers to the capturing enemy object; objects are
  named by the identifier \<open>eid\<close> they are given on creation.
\<close>

record player =
  p_rect :: rect
  speed :: int
  shoot_delay :: int
  last_shot :: int
  lives :: int
  combined_ships :: int
  max_combined_ships :: int
  invincible :: bool
  invincible_timer :: int
  invincible_duration :: int
  flash_counter :: int
  is_captured :: bool
  captured_by :: "nat option"
  has_double_fire :: bool
  engine_anim_counter :: int

datatype enemy_kind = Small | Medium | Large

text \<open>\<^verbatim>\<open>class Enemy\<close>.\<close>

record enemy =
  eid :: nat
  enemy_type :: enemy_kind
  e_rect :: rect
  points :: int
  health :: int
  speed_factor :: real
  can_capture :: bool
  base_x :: real
  base_speed :: real
  speed_x :: real
  wave_amplitude :: int
  wave_speed :: real
  wave_offset :: real
  wave_time :: real
  last_move_down :: int
  move_down_interval :: int
  is_diving :: bool
  dive_path :: "(int \<times> int) list"
  dive_index :: nat
  original_pos :: "int \<times> int"
  has_captured_player :: bool
  captured_player_offset :: "int \<times> int"
  can_shoot :: bool
  e_shoot_delay :: int
  e_last_shot :: int
  anim_counter :: int

text \<open>\<^verbatim>\<open>class Bullet\<close> and \<^verbatim>\<open>class EnemyBullet\<close>: a rectangle and a vertical speed.\<close>

record bullet =
  b_rect :: rect
  b_speed :: int

text \<open>
  The global state: the player, the sprite groups \<^verbatim>\<open>enemies\<close>, \<^verbatim>\<open>bullets\<close> and
  \<^verbatim>\<open>enemy_bullets\<close> in insertion order, the log of the sounds played, the state of the
  \<^verbatim>\<open>random\<close> module (the stream of its future draws), the next free object
  identifier, and the local variables of \<^verbatim>\<open>run_game\<close>.
\<close>

record world =
  player :: player
  enemies :: "enemy list"
  bullets :: "bullet list"
  enemy_bullets :: "bullet list"
  sounds :: "sound list"
  rng :: "real stream"
  next_id :: nat
  score :: int
  current_wave :: int
  last_dive_time :: int
  respawning :: bool
  respawn_timer :: int
  running :: bool

definition play :: "sound \<Rightarrow> world \<Rightarrow> world" where
  "play s w = w\<lparr>sounds := sounds w @ [s]\<rparr>"

section \<open>The random module\<close>

text \<open>
  Each call takes the next element of the stream. \<^verbatim>\<open>random.random()\<close> is its
  fractional part, a number in \<open>[0, 1)\<close>; \<^verbatim>\<open>randint(a, b)\<close> and \<^verbatim>\<open>uniform(a, b)\<close>
  scale it, so every stream is a legal run of the generator and every outcome of a call
  is produced by some stream.
\<close>

definition random_random :: "world \<Rightarrow> real \<times> world" where
  "random_random w = (frac (shd (rng w)), w\<lparr>rng := stl (rng w)\<rparr>)"

definition randint :: "int \<Rightarrow> int \<Rightarrow> world \<Rightarrow> int \<times> world" where
  "randint a b w =
     (let (u, w1) = random_random w in (a + \<lfloor>u * of_int (b - a + 1)\<rfloor>, w1))"

definition uniform :: "real \<Rightarrow> real \<Rightarrow> world \<Rightarrow> real \<times> world" where
  "uniform a b w = (let (u, w1) = random_random w in (a + (b - a) * u, w1))"

section \<open>Player\<close>

definition original_image_rect :: rect where
  "original_image_rect = Rect 0 0 30 40"

text \<open>\<^verbatim>\<open>Player.__init__\<close>; \<open>now\<close> is the clock reading \<^verbatim>\<open>pygame.time.get_ticks()\<close>.\<close>

definition Player :: "int \<Rightarrow> player" where
  "Player now =
     \<lparr>p_rect = set_bottom (WINDOW_HEIGHT - 20)
                 (set_centerx (WINDOW_WIDTH div 2) original_image_rect),
      speed = 8, shoot_delay = 250, last_shot = now, lives = 3,
      combined_ships = 1, max_combined_ships = 2,
      invincible = False, invincible_timer = 0, invincible_duration = 2000,
      flash_counter = 0, is_captured = False, captured_by = None,
      has_double_fire = False, engine_anim_counter = 0\<rparr>"

definition Bullet :: "int \<Rightarrow> int \<Rightarrow> bullet" where
  "Bullet x y = \<lparr>b_rect = set_bottom y (set_centerx x (Rect 0 0 6 12)), b_speed = - 10\<rparr>"

definition EnemyBullet :: "int \<Rightarrow> int \<Rightarrow> bullet" where
  "EnemyBullet x y = \<lparr>b_rect = set_top y (set_centerx x (Rect 0 0 6 12)), b_speed = 7\<rparr>"

definition add_bullet :: "bullet \<Rightarrow> world \<Rightarrow> world" where
  "add_bullet b w = w\<lparr>bullets := bullets w @ [b]\<rparr>"

text \<open>The keys held down in a frame, as \<^verbatim>\<open>pygame.key.get_pressed()\<close> reports them.\<close>

record keys =
  K_LEFT :: bool
  K_RIGHT :: bool

text \<open>\<^verbatim>\<open>Player.update\<close> (the choice of the image is drawing only).\<close>

definition update_player :: "int \<Rightarrow> keys \<Rightarrow> world \<Rightarrow> world" where
  "update_player now ks w =
     (let p = player w;
          p1 = (if invincible p
                then (let q = (if now - invincible_timer p > invincible_duration p
                               then p\<lparr>invincible := False\<rparr> else p)
                      in q\<lparr>flash_counter := flash_counter q + 1\<rparr>)
                else p);
          p2 = (if \<not> is_captured p1 \<and> \<not> invincible p1
                then p1\<lparr>engine_anim_counter := engine_anim_counter p1 + 1\<rparr> else p1)
      in if is_captured p2 then w\<lparr>player := p2\<rparr>
         else
           (let p3 = (if K_LEFT ks \<and> left (p_rect p2) > 0
                      then p2\<lparr>p_rect := (p_rect p2)\<lparr>rect_x := rect_x (p_rect p2) - speed p2\<rparr>\<rparr>
                      else p2);
                p4 = (if K_RIGHT ks \<and> right (p_rect p3) < WINDOW_WIDTH
                      then p3\<lparr>p_rect := (p_rect p3)\<lparr>rect_x := rect_x (p_rect p3) + speed p3\<rparr>\<rparr>
                      else p3)
            in w\<lparr>player := p4\<rparr>))"

text \<open>\<^verbatim>\<open>Player.shoot\<close>.\<close>

definition shoot :: "int \<Rightarrow> world \<Rightarrow> world" where
  "shoot now w =
     (let p = player w in
      if is_captured p then w
      else if now - last_shot p > shoot_delay p then
        (let w1 = play ShootSound (w\<lparr>player := p\<lparr>last_shot := now\<rparr>\<rparr>);
             cx = centerx (p_rect p);
             ty = top (p_rect p);
             w2 = add_bullet (Bullet cx ty) w1
         in if combined_ships p = 2
            then add_bullet (Bullet (cx + 20) ty) (add_bullet (Bullet (cx - 20) ty) w2)
            else if has_double_fire p then add_bullet (Bullet (cx - 20) ty) w2
            else w2)
      else w)"

text \<open>\<^verbatim>\<open>Player.hit\<close>.\<close>

definition hit :: "int \<Rightarrow> world \<Rightarrow> world" where
  "hit now w =
     (let p = player w in
      if \<not> invincible p \<and> \<not> is_captured p then
        (let w1 = play HitSound w in
         if combined_ships p > 1 then
           (let p1 = p\<lparr>combined_ships := combined_ships p - 1, has_double_fire := True\<rparr>;
                p2 = (if width (p_rect p1) > 30
                      then p1\<lparr>p_rect := set_bottom (WINDOW_HEIGHT - 20)
                                          (set_centerx (centerx (p_rect p1)) original_image_rect)\<rparr>
                      else p1)
            in w1\<lparr>player := p2\<lparr>invincible := True, invincible_timer := now,
                                flash_counter := 0\<rparr>\<rparr>)
         else
           (let p1 = p\<lparr>lives := lives p - 1\<rparr>
            in if lives p1 > 0
               then w1\<lparr>player := p1\<lparr>invincible := True, invincible_timer := now,
                                      flash_counter := 0\<rparr>\<rparr>
               else w1\<lparr>player := p1\<rparr>))
      else w)"

text \<open>\<^verbatim>\<open>Player.get_captured\<close>; \<open>captor\<close> is the identifier of the capturing enemy.\<close>

definition get_captured :: "nat \<Rightarrow> world \<Rightarrow> world" where
  "get_captured captor w =
     (let p = player w in
      if \<not> invincible p \<and> \<not> is_captured p then
        (if combined_ships p < max_combined_ships p then
           (play CaptureSound w)
             \<lparr>player := p\<lparr>is_captured := True, captured_by := Some captor,
                          lives := lives p - 1\<rparr>\<rparr>
         else w)
      else w)"

text \<open>\<^verbatim>\<open>Player.rescue\<close>.\<close>

definition rescue :: "int \<Rightarrow> world \<Rightarrow> world" where
  "rescue now w =
     (let w1 = play RescueSound w;
          p = (player w)\<lparr>is_captured := False, captured_by := None\<rparr>;
          p1 = (if combined_ships p < max_combined_ships p then
                  (let q = p\<lparr>combined_ships := combined_ships p + 1\<rparr>
                   in if combined_ships q = 2
                      then q\<lparr>p_rect := set_bottom (WINDOW_HEIGHT - 20)
                                         (set_centerx (centerx (p_rect q)) (Rect 0 0 50 40))\<rparr>
                      else q)
                else p)
      in w1\<lparr>player := p1\<lparr>has_double_fire := True, invincible := True,
                          invincible_timer := now, flash_counter := 0\<rparr>\<rparr>)"

text \<open>
  The data model's invariant on the ship counter: \<open>max_combined_ships\<close> is the constant
  2 that \<^verbatim>\<open>__init__\<close> stores, and \<open>combined_ships\<close> is 1 or 2.
\<close>

definition ships_ok :: "player \<Rightarrow> bool" where
  "ships_ok p = (max_combined_ships p = 2 \<and> (combined_ships p = 1 \<or> combined_ships p = 2))"

section \<open>Enemy\<close>

text \<open>
  \<^verbatim>\<open>Enemy.__init__(x, y, enemy_type)\<close>: the kind fixes size, points, health, speed factor
  and the capture ability; the sway parameters and the shot timer are drawn from the
  random module in the order of the source. The new object takes the next identifier.
\<close>

definition Enemy :: "int \<Rightarrow> int \<Rightarrow> enemy_kind \<Rightarrow> int \<Rightarrow> world \<Rightarrow> enemy \<times> world" where
  "Enemy x y k now w =
     (let (sz, pts, hp, sf, cc) =
            (case k of
               Small \<Rightarrow> (20, 100, 1, 12 / 10, False)
             | Medium \<Rightarrow> (30, 200, 2, 1, False)
             | Large \<Rightarrow> (40, 400, 3, 8 / 10, True));
          (amp, w1) = randint 20 40 w;
          (ws, w2) = uniform (5 / 100) (1 / 10) w1;
          (wo, w3) = uniform 0 (2 * pi) w2;
          (t, w4) = uniform 0 (2 * pi) w3;
          (sd, w5) = randint 3000 8000 w4;
          (ls, w6) = randint 0 2000 w5
      in (\<lparr>eid = next_id w6, enemy_type = k, e_rect = Rect x y sz sz,
           points = pts, health = hp, speed_factor = sf, can_capture = cc,
           base_x = of_int x, base_speed = 2 * sf, speed_x = 2 * sf,
           wave_amplitude = amp, wave_speed = ws, wave_offset = wo, wave_time = t,
           last_move_down = now, move_down_interval = 5000,
           is_diving = False, dive_path = [], dive_index = 0, original_pos = (x, y),
           has_captured_player = False, captured_player_offset = (0, 40),
           can_shoot = True, e_shoot_delay = sd, e_last_shot = now - ls,
           anim_counter = 0\<rparr>,
          w6\<lparr>next_id := Suc (next_id w6)\<rparr>))"

text \<open>\<^verbatim>\<open>Enemy.shoot\<close>: a bullet with probability 0.3.\<close>

definition enemy_shoot :: "enemy \<Rightarrow> world \<Rightarrow> world" where
  "enemy_shoot e w =
     (let (u, w1) = random_random w
      in if u < 3 / 10
         then w1\<lparr>enemy_bullets :=
                   enemy_bullets w1 @ [EnemyBullet (centerx (e_rect e)) (bottom (e_rect e))]\<rparr>
         else w1)"

text \<open>
  The diving branch of \<^verbatim>\<open>Enemy.update\<close>: follow the path; past its midpoint a boss that
  overlaps a player who is neither invincible nor captured calls \<^verbatim>\<open>get_captured\<close>, marks
  itself as the captor and returns to the top row.
\<close>

definition dive_step :: "enemy \<Rightarrow> world \<Rightarrow> enemy \<times> world" where
  "dive_step e w =
     (if dive_index e < length (dive_path e) then
        (let (px, py) = dive_path e ! dive_index e;
             e1 = e\<lparr>e_rect := (e_rect e)\<lparr>rect_x := px, rect_y := py\<rparr>,
                     dive_index := dive_index e + 1\<rparr>
         in if can_capture e1 \<and> \<not> has_captured_player e1
               \<and> dive_index e1 > length (dive_path e1) div 2
            then
              (if colliderect (p_rect (player w)) (e_rect e1)
                  \<and> \<not> invincible (player w) \<and> \<not> is_captured (player w)
               then
                 (let w1 = get_captured (eid e1) w;
                      (x, w2) = randint 50 (WINDOW_WIDTH - 50) w1
                  in (e1\<lparr>has_captured_player := True, is_diving := False,
                          e_rect := (e_rect e1)\<lparr>rect_y := 50, rect_x := x\<rparr>,
                          base_x := of_int x\<rparr>, w2))
               else (e1, w))
            else (e1, w))
      else
        (let e1 = e\<lparr>is_diving := False\<rparr>
         in if rect_y (e_rect e1) > WINDOW_HEIGHT
            then (let (x, w1) = randint 50 (WINDOW_WIDTH - 50) w
                  in (e1\<lparr>e_rect := (e_rect e1)\<lparr>rect_y := 50, rect_x := x\<rparr>,
                          base_x := of_int x\<rparr>, w1))
            else (e1, w)))"

text \<open>
  The formation branch of \<^verbatim>\<open>Enemy.update\<close>: sinusoidal sway around \<open>base_x\<close>, reflection
  at the field's edges, and a step down every \<open>move_down_interval\<close> milliseconds. The
  float assigned to \<^verbatim>\<open>rect.x\<close> is truncated by the rectangle.
\<close>

definition formation_step :: "int \<Rightarrow> enemy \<Rightarrow> enemy" where
  "formation_step now e =
     (let t = wave_time e + wave_speed e;
          x = py_int (base_x e
                + of_int (py_int (of_int (wave_amplitude e) * sin (t + wave_offset e))));
          e1 = e\<lparr>wave_time := t, e_rect := (e_rect e)\<lparr>rect_x := x\<rparr>\<rparr>;
          e2 = (if right (e_rect e1) > WINDOW_WIDTH
                then e1\<lparr>base_x := of_int (WINDOW_WIDTH - width (e_rect e1) - wave_amplitude e1),
                        speed_x := - \<bar>speed_x e1\<bar>\<rparr>
                else if left (e_rect e1) < 0
                then e1\<lparr>base_x := of_int (wave_amplitude e1), speed_x := \<bar>speed_x e1\<bar>\<rparr>
                else e1);
          e3 = e2\<lparr>base_x := base_x e2 + speed_x e2\<rparr>
      in if now - last_move_down e3 > move_down_interval e3
         then e3\<lparr>e_rect := (e_rect e3)\<lparr>rect_y := rect_y (e_rect e3) + 20\<rparr>,
                 last_move_down := now\<rparr>
         else e3)"

text \<open>\<^verbatim>\<open>Enemy.update\<close>.\<close>

definition update_enemy :: "int \<Rightarrow> enemy \<Rightarrow> world \<Rightarrow> enemy \<times> world" where
  "update_enemy now e0 w0 =
     (let e1 = e0\<lparr>anim_counter := anim_counter e0 + 1\<rparr>;
          (e2, w2) =
            (if can_shoot e1 \<and> now - e_last_shot e1 > e_shoot_delay e1
             then (let (d, w1) = randint 3000 8000 (enemy_shoot e1 w0)
                   in (e1\<lparr>e_last_shot := now, e_shoot_delay := d\<rparr>, w1))
             else (e1, w0));
          (e3, w3) = (if is_diving e2 then dive_step e2 w2 else (formation_step now e2, w2))
      in if has_captured_player e3
         then (e3, w3\<lparr>player := (player w3)\<lparr>p_rect := (p_rect (player w3))
                        \<lparr>rect_x := rect_x (e_rect e3) + fst (captured_player_offset e3),
                         rect_y := rect_y (e_rect e3) + snd (captured_player_offset e3)\<rparr>\<rparr>\<rparr>)
         else (e3, w3))"

text \<open>
  \<^verbatim>\<open>Enemy.start_dive\<close>: a quadratic Bezier curve from the enemy's position through a
  control point with a random horizontal offset to the target, sampled at
  \<open>t = i / 30\<close> for \<open>i = 0, \<dots>, 30\<close>. The formula is evaluated in exact reals; the
  source evaluates it in floats before \<^verbatim>\<open>int()\<close>, so an interior point whose exact value
  is an integer can come out one pixel lower there. The first and the last point are
  exact in both.
\<close>

definition bezier :: "real \<Rightarrow> int \<Rightarrow> int \<Rightarrow> int \<Rightarrow> int" where
  "bezier t s c e =
     py_int ((1 - t)\<^sup>2 * of_int s + 2 * (1 - t) * t * of_int c + t\<^sup>2 * of_int e)"

definition start_dive :: "int \<Rightarrow> int \<Rightarrow> enemy \<Rightarrow> world \<Rightarrow> enemy \<times> world" where
  "start_dive target_x target_y e w =
     (if has_captured_player e then (e, w)
      else
        (let start_x = rect_x (e_rect e);
             start_y = rect_y (e_rect e);
             (r, w1) = randint (- 100) 100 w;
             control_x = start_x + r;
             control_y = (start_y + target_y) div 2 - 50;
             steps = 30 :: nat
         in (e\<lparr>is_diving := True, dive_index := 0, original_pos := (start_x, start_y),
                dive_path :=
                  map (\<lambda>i. let t = real i / real steps
                            in (bezier t start_x control_x target_x,
                                bezier t start_y control_y target_y))
                      [0 ..< steps + 1]\<rparr>,
             w1)))"

section \<open>Bullets\<close>

text \<open>
  \<^verbatim>\<open>Bullet.update\<close> and \<^verbatim>\<open>EnemyBullet.update\<close>: move, and leave every group
  (\<open>None\<close>) once off the screen.
\<close>

definition update_bullet :: "bullet \<Rightarrow> bullet option" where
  "update_bullet b =
     (let b1 = b\<lparr>b_rect := (b_rect b)\<lparr>rect_y := rect_y (b_rect b) + b_speed b\<rparr>\<rparr>
      in if bottom (b_rect b1) < 0 then None else Some b1)"

definition update_enemy_bullet :: "bullet \<Rightarrow> bullet option" where
  "update_enemy_bullet b =
     (let b1 = b\<lparr>b_rect := (b_rect b)\<lparr>rect_y := rect_y (b_rect b) + b_speed b\<rparr>\<rparr>
      in if top (b_rect b1) > WINDOW_HEIGHT then None else Some b1)"

section \<open>Wave management\<close>

datatype formation = Grid | Diamond | Arc | VShape

definition enemy_types :: "enemy_kind list" where
  "enemy_types = [Small, Medium, Large]"

definition add_enemy :: "enemy \<Rightarrow> world \<Rightarrow> world" where
  "add_enemy e w = w\<lparr>enemies := enemies w @ [e]\<rparr>"

text \<open>One cell of the grid: the kind is drawn first, then the enemy is built.\<close>

fun grid_cells :: "int \<Rightarrow> (nat \<times> nat) list \<Rightarrow> world \<Rightarrow> world" where
  "grid_cells now [] w = w"
| "grid_cells now ((row, col) # cells) w =
     (let (k, w1) = randint 0 2 w;
          (e, w2) = Enemy (int col * 80 + 100) (int row * 60 + 50) (enemy_types ! nat k) now w1
      in grid_cells now cells (add_enemy e w2))"

text \<open>The other formations build enemies of a fixed kind at listed positions.\<close>

fun spawn :: "int \<Rightarrow> (int \<times> int \<times> enemy_kind) list \<Rightarrow> world \<Rightarrow> world" where
  "spawn now [] w = w"
| "spawn now ((x, y, k) # rest) w =
     (let (e, w1) = Enemy x y k now w in spawn now rest (add_enemy e w1))"

definition diamond_positions :: "(int \<times> int) list" where
  "diamond_positions =
     [(WINDOW_WIDTH div 2, 50), (WINDOW_WIDTH div 2 - 80, 100),
      (WINDOW_WIDTH div 2 + 80, 100), (WINDOW_WIDTH div 2, 150),
      (WINDOW_WIDTH div 2 - 40, 75), (WINDOW_WIDTH div 2 + 40, 75),
      (WINDOW_WIDTH div 2 - 40, 125), (WINDOW_WIDTH div 2 + 40, 125),
      (WINDOW_WIDTH div 2 - 120, 150), (WINDOW_WIDTH div 2 + 120, 150)]"

text \<open>
  \<^verbatim>\<open>create_enemies_formation\<close>; \<^verbatim>\<open>enemies.empty()\<close> clears the group first. The state
  holds the group \<^verbatim>\<open>enemies\<close> only, not \<^verbatim>\<open>all_sprites\<close>: the program calls this
  function only when the group is empty, and then the two agree on the enemies. The
  positions of the arc use exact cosine and sine where the source truncates floats, so
  an arc position can differ by one pixel; the other formations use integers only.
\<close>

definition create_enemies_formation :: "formation \<Rightarrow> int \<Rightarrow> world \<Rightarrow> world" where
  "create_enemies_formation f now w =
     (let w0 = w\<lparr>enemies := []\<rparr> in
      case f of
        Grid \<Rightarrow>
          grid_cells now
            (concat (map (\<lambda>row. map (\<lambda>col. (row, col)) [0 ..< 5]) [0 ..< 2])) w0
      | Diamond \<Rightarrow>
          spawn now
            (map (\<lambda>i. (fst (diamond_positions ! i), snd (diamond_positions ! i),
                        enemy_types ! (i mod 3)))
                 [0 ..< length diamond_positions]) w0
      | Arc \<Rightarrow>
          spawn now
            (map (\<lambda>i. let angle = pi * real i / real (10 - 1 :: nat)
                      in (WINDOW_WIDTH div 2 + py_int (150 * cos angle),
                          100 + py_int (150 * sin angle),
                          enemy_types ! (i mod 3)))
                 [0 ..< 10]) w0
      | VShape \<Rightarrow>
          spawn now
            (concat (map (\<lambda>i. [(WINDOW_WIDTH div 2 - (int i + 1) * 40, 50 + int i * 30,
                                  enemy_types ! (i mod 3)),
                                 (WINDOW_WIDTH div 2 + (int i + 1) * 40, 50 + int i * 30,
                                  enemy_types ! ((i + 1) mod 3))])
                         [0 ..< 10 div 2])) w0)"

definition wave_formations :: "formation list" where
  "wave_formations = [Grid, Diamond, Arc, VShape]"


section \<open>The game loop\<close>

text \<open>
  \<^verbatim>\<open>random.sample(pool, k)\<close>: \<open>k\<close> elements drawn one after the other without
  replacement, in the order drawn (the source never asks for more than the pool holds).
\<close>

fun sample :: "'a list \<Rightarrow> nat \<Rightarrow> world \<Rightarrow> 'a list \<times> world" where
  "sample pool 0 w = ([], w)"
| "sample pool (Suc k) w =
     (if pool = [] then ([], w)
      else
        (let (j, w1) = randint 0 (int (length pool) - 1) w;
             (rest, w2) = sample (take (nat j) pool @ drop (Suc (nat j)) pool) k w1
         in (pool ! nat j # rest, w2)))"

text \<open>
  What one frame receives from outside: the clock reading (the model samples the clock
  once per frame), the events of the queue and the keys held down.
\<close>

datatype event = QUIT | KEYDOWN_ESCAPE | KEYDOWN_SPACE | OTHER_EVENT

record input =
  clock :: int
  events :: "event list"
  pressed :: keys

text \<open>
  The state before the first wave: empty groups, a fresh player, the initial values of
  the locals of \<^verbatim>\<open>run_game\<close>; then \<^verbatim>\<open>create_enemies_formation("grid")\<close>.
\<close>

definition new_world :: "int \<Rightarrow> real stream \<Rightarrow> world" where
  "new_world now rs =
     \<lparr>player = Player now, enemies = [], bullets = [], enemy_bullets = [], sounds = [],
      rng = rs, next_id = 0, score = 0, current_wave = 0, last_dive_time = now,
      respawning = False, respawn_timer = 0, running = True\<rparr>"

definition run_game_init :: "int \<Rightarrow> real stream \<Rightarrow> world" where
  "run_game_init now rs = create_enemies_formation Grid now (new_world now rs)"

text \<open>
  The event loop: \<^verbatim>\<open>QUIT\<close> ends the process (\<open>None\<close>), Escape stops the session, Space
  shoots.
\<close>

fun process_events :: "int \<Rightarrow> event list \<Rightarrow> world \<Rightarrow> world option" where
  "process_events now [] w = Some w"
| "process_events now (QUIT # evs) w = None"
| "process_events now (KEYDOWN_ESCAPE # evs) w = process_events now evs (w\<lparr>running := False\<rparr>)"
| "process_events now (KEYDOWN_SPACE # evs) w = process_events now evs (shoot now w)"
| "process_events now (OTHER_EVENT # evs) w = process_events now evs w"

text \<open>The respawn step after a capture.\<close>

definition respawn_step :: "int \<Rightarrow> world \<Rightarrow> world" where
  "respawn_step now w =
     (if respawning w then
        (if now - respawn_timer w > 1000
         then w\<lparr>respawning := False,
                player := (player w)\<lparr>invincible := True, invincible_timer := now,
                                     flash_counter := 0\<rparr>\<rparr>
         else w)
      else w)"

text \<open>
  \<^verbatim>\<open>all_sprites.update()\<close>: the player is the first sprite of the group; the enemies
  follow in the order of their group, each seeing the player as the enemies before it
  left it. The bullets only move themselves, so their place in the order does not
  matter; the bullets that enemies fire during this update are not moved by it.
\<close>

fun update_enemies :: "int \<Rightarrow> enemy list \<Rightarrow> world \<Rightarrow> enemy list \<times> world" where
  "update_enemies now [] w = ([], w)"
| "update_enemies now (e # es) w =
     (let (e1, w1) = update_enemy now e w;
          (es1, w2) = update_enemies now es w1
      in (e1 # es1, w2))"

definition update_all :: "int \<Rightarrow> keys \<Rightarrow> world \<Rightarrow> world" where
  "update_all now ks w =
     (let w1 = update_player now ks w;
          w2 = w1\<lparr>bullets := List.map_filter update_bullet (bullets w1),
                  enemy_bullets := List.map_filter update_enemy_bullet (enemy_bullets w1)\<rparr>;
          (es, w3) = update_enemies now (enemies w2) w2
      in w3\<lparr>enemies := es\<rparr>)"

text \<open>
  Player bullets against enemies. \<^verbatim>\<open>pygame.sprite.groupcollide(bullets, enemies, True,
  False)\<close> computes, for every bullet, the enemies it overlaps (here: their positions in
  the group), keeps the bullets with a non-empty list and removes those bullets. The
  loop then works on the enemy objects of that snapshot: each object is paired with the
  flag "still in the group", which \<^verbatim>\<open>kill()\<close> clears, so an object stays reachable from
  the lists of later bullets after it is killed.
\<close>

definition groupcollide :: "bullet list \<Rightarrow> enemy list \<Rightarrow> (bullet \<times> nat list) list" where
  "groupcollide bs es =
     filter (\<lambda>(b, c). c \<noteq> [])
       (map (\<lambda>b. (b, filter (\<lambda>i. colliderect (b_rect b) (e_rect (es ! i))) [0 ..< length es]))
            bs)"

definition hit_enemy ::
  "int \<Rightarrow> nat \<Rightarrow> (enemy \<times> bool) list \<times> world \<Rightarrow> (enemy \<times> bool) list \<times> world" where
  "hit_enemy now i s =
     (let (st, w) = s;
          e = (fst (st ! i))\<lparr>health := health (fst (st ! i)) - 1\<rparr>
      in if health e \<le> 0 then
           (let w1 = (if has_captured_player e then rescue now w else w);
                w2 = play ExplosionSound w1
            in (st[i := (e, False)], w2\<lparr>score := score w2 + points e\<rparr>))
         else (st[i := (e, snd (st ! i))], w))"

definition bullet_enemy_collisions :: "int \<Rightarrow> world \<Rightarrow> world" where
  "bullet_enemy_collisions now w =
     (let hits = groupcollide (bullets w) (enemies w);
          w0 = w\<lparr>bullets := filter (\<lambda>b. b \<notin> set (map fst hits)) (bullets w)\<rparr>;
          (st, w1) = fold (\<lambda>(b, hit_enemies) s. fold (hit_enemy now) hit_enemies s) hits
                       (map (\<lambda>e. (e, True)) (enemies w), w0)
      in w1\<lparr>enemies := map fst (filter snd st)\<rparr>)"

text \<open>
  Enemy bullets against the player: \<^verbatim>\<open>spritecollide(player, enemy_bullets, True)\<close>
  removes every overlapping bullet; one \<^verbatim>\<open>hit()\<close> if there was any.
\<close>

definition enemy_bullet_collisions :: "int \<Rightarrow> world \<Rightarrow> world" where
  "enemy_bullet_collisions now w =
     (if \<not> is_captured (player w) \<and> \<not> invincible (player w) then
        (let r = p_rect (player w);
             crashed = filter (\<lambda>b. colliderect r (b_rect b)) (enemy_bullets w);
             w1 = w\<lparr>enemy_bullets := filter (\<lambda>b. \<not> colliderect r (b_rect b)) (enemy_bullets w)\<rparr>
         in if crashed \<noteq> [] then hit now w1 else w1)
      else w)"

text \<open>
  Enemy bodies against the player. The body of the loop for one overlapping enemy: the
  capture branch (the random roll is made only when the three conditions before it
  hold), or the destructive branch, which removes the enemy (\<open>None\<close>).
\<close>

definition destroy_on_contact :: "int \<Rightarrow> world \<Rightarrow> enemy option \<times> world" where
  "destroy_on_contact now w = (None, hit now w)"

definition enemy_player_collision :: "int \<Rightarrow> enemy \<Rightarrow> world \<Rightarrow> enemy option \<times> world" where
  "enemy_player_collision now e w =
     (if can_capture e \<and> \<not> has_captured_player e
         \<and> combined_ships (player w) < max_combined_ships (player w)
      then
        (let (u, w1) = random_random w in
         if u < 3 / 10 then
           (let w2 = get_captured (eid e) w1;
                e1 = e\<lparr>has_captured_player := True\<rparr>
            in if lives (player w2) > 0
               then (Some e1,
                     w2\<lparr>respawning := True, respawn_timer := now,
                        player := (player w2)\<lparr>p_rect :=
                          set_bottom (WINDOW_HEIGHT - 20)
                            (set_centerx (WINDOW_WIDTH div 2) (p_rect (player w2)))\<rparr>\<rparr>)
               else (Some e1, w2))
         else destroy_on_contact now w1)
      else destroy_on_contact now w)"

text \<open>
  The loop runs over the enemies that overlapped the player when
  \<^verbatim>\<open>spritecollide(player, enemies, False)\<close> was called (the flag paired with each enemy);
  the others are left alone.
\<close>

fun enemy_player_loop :: "int \<Rightarrow> (enemy \<times> bool) list \<Rightarrow> world \<Rightarrow> enemy list \<times> world" where
  "enemy_player_loop now [] w = ([], w)"
| "enemy_player_loop now ((e, c) # rest) w =
     (if c then
        (let (r, w1) = enemy_player_collision now e w;
             (es, w2) = enemy_player_loop now rest w1
         in (case r of None \<Rightarrow> (es, w2) | Some e1 \<Rightarrow> (e1 # es, w2)))
      else
        (let (es, w2) = enemy_player_loop now rest w in (e # es, w2)))"

definition enemy_player_collisions :: "int \<Rightarrow> world \<Rightarrow> world" where
  "enemy_player_collisions now w =
     (if \<not> is_captured (player w) \<and> \<not> invincible (player w) then
        (let r = p_rect (player w);
             (es, w1) = enemy_player_loop now
                          (map (\<lambda>e. (e, colliderect r (e_rect e))) (enemies w)) w
         in w1\<lparr>enemies := es\<rparr>)
      else w)"

text \<open>The next wave, once no enemy is left.\<close>

definition next_wave :: "int \<Rightarrow> world \<Rightarrow> world" where
  "next_wave now w =
     (if length (enemies w) = 0 then
        (let w1 = play WaveCompleteSound w;
             w2 = w1\<lparr>current_wave := current_wave w1 + 1\<rparr>;
             f = wave_formations ! nat (current_wave w2 mod int (length wave_formations))
         in create_enemies_formation f now w2)
      else w)"

text \<open>
  The dive scheduler: one or two enemies are sampled from the whole group (by position),
  and each sampled enemy that is neither diving nor carrying the player starts a dive
  toward a point near the player, 50 pixels below the screen.
\<close>

fun dive_loop :: "nat list \<Rightarrow> world \<Rightarrow> world" where
  "dive_loop [] w = w"
| "dive_loop (i # rest) w =
     (let e = enemies w ! i in
      if \<not> is_diving e \<and> \<not> has_captured_player e then
        (let (r, w1) = randint (- 50) 50 w;
             target_x = centerx (p_rect (player w1)) + r;
             target_y = WINDOW_HEIGHT + 50;
             (e1, w2) = start_dive target_x target_y e w1
         in dive_loop rest (w2\<lparr>enemies := (enemies w2)[i := e1]\<rparr>))
      else dive_loop rest w)"

definition diving_enemies :: "world \<Rightarrow> nat list \<times> world" where
  "diving_enemies w =
     (let (r, w1) = randint 1 2 w;
          dive_count = min r (int (length (enemies w1)))
      in sample [0 ..< length (enemies w1)] (nat dive_count) w1)"

definition dive_scheduler :: "int \<Rightarrow> world \<Rightarrow> world" where
  "dive_scheduler now w =
     (if now - last_dive_time w > 3000 \<and> length (enemies w) > 0 then
        (let (chosen, w1) = diving_enemies (w\<lparr>last_dive_time := now\<rparr>)
         in dive_loop chosen w1)
      else w)"

definition game_over_check :: "world \<Rightarrow> world" where
  "game_over_check w = (if lives (player w) \<le> 0 then w\<lparr>running := False\<rparr> else w)"

text \<open>One pass through the body of the \<^verbatim>\<open>while running\<close> loop (drawing apart).\<close>

definition resolve_collisions :: "int \<Rightarrow> world \<Rightarrow> world" where
  "resolve_collisions now w =
     enemy_player_collisions now (enemy_bullet_collisions now (bullet_enemy_collisions now w))"

definition frame :: "input \<Rightarrow> world \<Rightarrow> world option" where
  "frame inp w =
     (case process_events (clock inp) (events inp) w of
        None \<Rightarrow> None
      | Some w1 \<Rightarrow>
          Some (game_over_check
                 (dive_scheduler (clock inp)
                   (next_wave (clock inp)
                     (resolve_collisions (clock inp)
                       (update_all (clock inp) (pressed inp)
                         (respawn_step (clock inp) w1)))))))"

text \<open>
  The loop itself, over the inputs of the successive frames: it stops when \<open>running\<close>
  is cleared, and \<open>None\<close> is the process exit on \<^verbatim>\<open>QUIT\<close>.
\<close>

fun run_game_loop :: "input list \<Rightarrow> world \<Rightarrow> world option" where
  "run_game_loop [] w = Some w"
| "run_game_loop (inp # inps) w =
     (if running w
      then (case frame inp w of None \<Rightarrow> None | Some w1 \<Rightarrow> run_game_loop inps w1)
      else Some w)"


text \<open>The place of an enemy: the corner of its rectangle, \<^verbatim>\<open>(rect.x, rect.y)\<close>.\<close>

definition position :: "enemy \<Rightarrow> int \<times> int" where
  "position e = (rect_x (e_rect e), rect_y (e_rect e))"

text \<open>
  An enemy the scheduler may send diving, and what a dive started toward the player \<open>p\<close>
  looks like: the enemy \<open>e\<close> has become \<open>e1\<close>, diving from the first of 31 path points,
  the path leading from its place to a point 50 pixels below the screen, at most 50
  pixels left or right of the player's centre.
\<close>

definition eligible :: "enemy \<Rightarrow> bool" where
  "eligible e = (\<not> is_diving e \<and> \<not> has_captured_player e)"

definition dive_started :: "player \<Rightarrow> enemy \<Rightarrow> enemy \<Rightarrow> bool" where
  "dive_started p e e1 =
     (is_diving e1 \<and> dive_index e1 = 0 \<and> length (dive_path e1) = 31
      \<and> hd (dive_path e1) = position e
      \<and> (\<exists>tx. centerx (p_rect p) - 50 \<le> tx \<and> tx \<le> centerx (p_rect p) + 50
              \<and> last (dive_path e1) = (tx, WINDOW_HEIGHT + 50)))"

text \<open>
  The number of calls of \<^verbatim>\<open>Player.rescue\<close> so far, read off the sound log (each call
  plays the rescue sound, and nothing else does). Two relations between an earlier and
  a later state: no rescue happened in between and a captured player is still captured;
  and the weaker one that allows rescues, in which a captured player is still captured
  if none happened.
\<close>

definition rescues :: "world \<Rightarrow> nat" where
  "rescues w = count_list (sounds w) RescueSound"

definition no_rescue :: "world \<Rightarrow> world \<Rightarrow> bool" where
  "no_rescue w w1 = (rescues w1 = rescues w \<and> (is_captured (player w) \<longrightarrow> is_captured (player w1)))"

definition captivity_kept :: "world \<Rightarrow> world \<Rightarrow> bool" where
  "captivity_kept w w1 =
     (rescues w \<le> rescues w1
      \<and> (is_captured (player w) \<and> rescues w1 = rescues w \<longrightarrow> is_captured (player w1)))"

text \<open>
  For the pass of the player's bullets against the enemies: the number of bullets that
  overlap an enemy, and, for an enemy of health \<open>h\<close> that is hit \<open>k\<close> times in a row,
  the number of those hits that leave its health at 0 or below (each of them runs the
  destruction branch of the loop).
\<close>

definition hits_on :: "world \<Rightarrow> enemy \<Rightarrow> nat" where
  "hits_on w e = length (filter (\<lambda>b. colliderect (b_rect b) (e_rect e)) (bullets w))"

fun lethal_hits :: "int \<Rightarrow> nat \<Rightarrow> nat" where
  "lethal_hits h 0 = 0"
| "lethal_hits h (Suc k) = (if h - 1 \<le> 0 then 1 else 0) + lethal_hits (h - 1) k"

text \<open>
  An enemy object of the snapshot, paired with its flag "still in the group", after the
  hits listed in \<open>hs\<close> (positions in the group, \<open>i\<close> its own); the points those hits
  award for it; and whether they call \<^verbatim>\<open>rescue\<close> for it.
\<close>

definition after_hits :: "nat list \<Rightarrow> enemy \<times> bool \<Rightarrow> nat \<Rightarrow> enemy \<times> bool" where
  "after_hits hs eb i =
     ((fst eb)\<lparr>health := health (fst eb) - int (count_list hs i)\<rparr>,
      snd eb \<and> lethal_hits (health (fst eb)) (count_list hs i) = 0)"

definition award :: "nat list \<Rightarrow> enemy \<times> bool \<Rightarrow> nat \<Rightarrow> int" where
  "award hs eb i = points (fst eb) * int (lethal_hits (health (fst eb)) (count_list hs i))"

definition frees :: "nat list \<Rightarrow> enemy \<times> bool \<Rightarrow> nat \<Rightarrow> bool" where
  "frees hs eb i =
     (has_captured_player (fst eb) \<and> 0 < lethal_hits (health (fst eb)) (count_list hs i))"

text \<open>A later state keeps the data model's invariant on the ship counter.\<close>

definition ships_kept :: "world \<Rightarrow> world \<Rightarrow> bool" where
  "ships_kept w w1 = (ships_ok (player w) \<longrightarrow> ships_ok (player w1))"

text \<open>
  The states of a session: the state \<^verbatim>\<open>run_game\<close> builds before its loop, and every
  state the loop body produces from a state in which \<open>running\<close> still holds.
\<close>

inductive reachable :: "world \<Rightarrow> bool" where
  start: "reachable (run_game_init now rs)"
| step: "reachable w \<Longrightarrow> running w \<Longrightarrow> frame inp w = Some w1 \<Longrightarrow> reachable w1"

section \<open>Player transitions\<close>

lemma ships_ok_Player: "ships_ok (Player now)"
  by (simp add: ships_ok_def Player_def)

lemma ships_ok_hit: "ships_ok (player w) \<Longrightarrow> ships_ok (player (hit now w))"
  by (simp add: ships_ok_def hit_def play_def Let_def) arith

lemma ships_ok_get_captured:
  "ships_ok (player w) \<Longrightarrow> ships_ok (player (get_captured c w))"
  by (simp add: ships_ok_def get_captured_def play_def Let_def) arith

lemma ships_ok_rescue: "ships_ok (player w) \<Longrightarrow> ships_ok (player (rescue now w))"
  by (simp add: ships_ok_def rescue_def play_def Let_def) arith

text \<open>
  C3. \<^verbatim>\<open>get_captured\<close> changes nothing at all (no field of the player, no sound) when
  the player is already captured, is invincible or has two combined ships; otherwise it
  sets \<open>is_captured\<close>, links \<open>captured_by\<close> to the captor and lowers \<open>lives\<close> by one,
  leaving every other field of the player as it was. The player is one of the data
  model: its ship counter is 1 or 2 and the maximum is the constant 2.
\<close>

theorem get_captured_guarded:
  assumes "ships_ok (player w)"
  shows "(is_captured (player w) \<or> invincible (player w) \<or> combined_ships (player w) = 2
            \<longrightarrow> get_captured c w = w)
       \<and> (\<not> (is_captured (player w) \<or> invincible (player w) \<or> combined_ships (player w) = 2)
            \<longrightarrow> player (get_captured c w)
                = (player w)\<lparr>is_captured := True, captured_by := Some c,
                             lives := lives (player w) - 1\<rparr>)"
proof -
  have m: "max_combined_ships (player w) = 2" using assms by (simp add: ships_ok_def)
  have c: "combined_ships (player w) \<noteq> 2 \<Longrightarrow> combined_ships (player w) < 2"
    using assms unfolding ships_ok_def by arith
  show ?thesis using m c by (simp add: get_captured_def play_def Let_def)
qed

theorem get_captured_guarded_witness:
  "ships_ok (player (new_world 0 (sconst 0)))
   \<and> player (get_captured 7 (new_world 0 (sconst 0)))
       = (Player 0)\<lparr>is_captured := True, captured_by := Some 7, lives := 2\<rparr>
   \<and> get_captured 8 (get_captured 7 (new_world 0 (sconst 0)))
       = get_captured 7 (new_world 0 (sconst 0))"
  using get_captured_guarded [of "new_world 0 (sconst 0)" 7]
        get_captured_guarded [of "get_captured 7 (new_world 0 (sconst 0))" 8]
  by (simp add: new_world_def Player_def ships_ok_def get_captured_def play_def)

text \<open>
  C4. A hit on a player with two combined ships who is neither invincible nor captured
  leaves one ship, sets \<open>has_double_fire\<close>, starts invincibility and keeps \<open>lives\<close>.
\<close>

theorem hit_combined:
  assumes "combined_ships (player w) = 2" and "\<not> invincible (player w)"
      and "\<not> is_captured (player w)"
  shows "combined_ships (player (hit now w)) = 1
       \<and> has_double_fire (player (hit now w))
       \<and> invincible (player (hit now w))
       \<and> lives (player (hit now w)) = lives (player w)"
  using assms by (simp add: hit_def play_def Let_def)

theorem hit_combined_witness:
  "combined_ships (player (update_player 5000 \<lparr>K_LEFT = False, K_RIGHT = False\<rparr>
                             (rescue 0 (new_world 0 (sconst 0))))) = 2
   \<and> \<not> invincible (player (update_player 5000 \<lparr>K_LEFT = False, K_RIGHT = False\<rparr>
                             (rescue 0 (new_world 0 (sconst 0)))))
   \<and> \<not> is_captured (player (update_player 5000 \<lparr>K_LEFT = False, K_RIGHT = False\<rparr>
                             (rescue 0 (new_world 0 (sconst 0)))))
   \<and> combined_ships (player (hit 5000 (update_player 5000 \<lparr>K_LEFT = False, K_RIGHT = False\<rparr>
                             (rescue 0 (new_world 0 (sconst 0)))))) = 1
   \<and> lives (player (hit 5000 (update_player 5000 \<lparr>K_LEFT = False, K_RIGHT = False\<rparr>
                             (rescue 0 (new_world 0 (sconst 0)))))) = 3"
  using hit_combined [of "update_player 5000 \<lparr>K_LEFT = False, K_RIGHT = False\<rparr>
                            (rescue 0 (new_world 0 (sconst 0)))" 5000]
  by (simp add: new_world_def Player_def rescue_def update_player_def play_def Let_def)

text \<open>
  C5. After \<^verbatim>\<open>rescue\<close> the player is not captured, has no captor, has double fire and is
  invincible; the ship counter has grown by exactly one unless it was 2 already, in
  which case it is unchanged. The player is one of the data model: its ship counter is
  1 or 2 and the maximum is the constant 2.
\<close>

theorem rescue_effect:
  assumes "ships_ok (player w)"
  shows "\<not> is_captured (player (rescue now w))
       \<and> captured_by (player (rescue now w)) = None
       \<and> has_double_fire (player (rescue now w))
       \<and> invincible (player (rescue now w))
       \<and> combined_ships (player (rescue now w))
           = (if combined_ships (player w) = 2 then 2 else combined_ships (player w) + 1)"
proof -
  have m: "max_combined_ships (player w) = 2" using assms by (simp add: ships_ok_def)
  have c: "combined_ships (player w) \<noteq> 2 \<Longrightarrow> combined_ships (player w) < 2"
    using assms unfolding ships_ok_def by arith
  show ?thesis using m c by (simp add: rescue_def play_def Let_def)
qed

theorem rescue_effect_witness:
  "ships_ok (player (get_captured 7 (new_world 0 (sconst 0))))
   \<and> is_captured (player (get_captured 7 (new_world 0 (sconst 0))))
   \<and> \<not> is_captured (player (rescue 40 (get_captured 7 (new_world 0 (sconst 0)))))
   \<and> combined_ships (player (rescue 40 (get_captured 7 (new_world 0 (sconst 0))))) = 2
   \<and> combined_ships (player (rescue 50 (rescue 40 (get_captured 7 (new_world 0 (sconst 0)))))) = 2"
  using rescue_effect [of "get_captured 7 (new_world 0 (sconst 0))" 40]
        rescue_effect [of "rescue 40 (get_captured 7 (new_world 0 (sconst 0)))" 50]
  by (simp add: new_world_def Player_def ships_ok_def get_captured_def rescue_def play_def
        Let_def)

section \<open>Formations and dive paths\<close>


lemma py_int_of_int: "py_int (of_int n) = n"
  by (simp add: py_int_def)

lemma bezier_start: "bezier 0 s c e = s"
  by (simp add: bezier_def py_int_of_int)

lemma bezier_end: "bezier 1 s c e = e"
  by (simp add: bezier_def py_int_of_int)

lemma enemies_random_random: "enemies (snd (random_random w)) = enemies w"
  by (simp add: random_random_def)

lemma enemies_randint: "enemies (snd (randint a b w)) = enemies w"
  by (simp add: randint_def random_random_def)

lemma enemies_uniform: "enemies (snd (uniform a b w)) = enemies w"
  by (simp add: uniform_def random_random_def)

lemma next_id_randint: "next_id (snd (randint a b w)) = next_id w"
  by (simp add: randint_def random_random_def)

lemma next_id_uniform: "next_id (snd (uniform a b w)) = next_id w"
  by (simp add: uniform_def random_random_def)

lemma enemies_Enemy: "enemies (snd (Enemy x y k now w)) = enemies w"
  by (simp add: Enemy_def Let_def split_def enemies_randint enemies_uniform)

lemma next_id_Enemy: "next_id (snd (Enemy x y k now w)) = Suc (next_id w)"
  by (simp add: Enemy_def Let_def split_def next_id_randint next_id_uniform)

lemma eid_Enemy: "eid (fst (Enemy x y k now w)) = next_id w"
  by (simp add: Enemy_def Let_def split_def next_id_randint next_id_uniform)

lemma e_rect_Enemy:
  "rect_x (e_rect (fst (Enemy x y k now w))) = x \<and> rect_y (e_rect (fst (Enemy x y k now w))) = y"
  by (simp add: Enemy_def Let_def split_def Rect_def)


lemma grid_cells_enemies:
  "map position (enemies (grid_cells now cells w))
     = map position (enemies w) @ map (\<lambda>(row, col). (int col * 80 + 100, int row * 60 + 50)) cells
   \<and> map eid (enemies (grid_cells now cells w))
     = map eid (enemies w) @ [next_id w ..< next_id w + length cells]"
proof (induction cells arbitrary: w)
  case Nil
  show ?case by simp
next
  case (Cons rc cells)
  obtain row col where rc: "rc = (row, col)" by (cases rc)
  define w1 where "w1 = snd (randint 0 2 w)"
  define k where "k = enemy_types ! nat (fst (randint 0 2 w))"
  define e where "e = fst (Enemy (int col * 80 + 100) (int row * 60 + 50) k now w1)"
  define w2 where "w2 = snd (Enemy (int col * 80 + 100) (int row * 60 + 50) k now w1)"
  have step: "grid_cells now (rc # cells) w = grid_cells now cells (add_enemy e w2)"
    by (simp add: rc split_def Let_def e_def w2_def k_def w1_def)
  have es: "enemies (add_enemy e w2) = enemies w @ [e]"
    by (simp add: add_enemy_def w2_def w1_def enemies_Enemy enemies_randint)
  have nid: "next_id (add_enemy e w2) = Suc (next_id w)"
    by (simp add: add_enemy_def w2_def w1_def next_id_Enemy next_id_randint)
  have pos: "position e = (int col * 80 + 100, int row * 60 + 50)"
    by (simp add: position_def e_def e_rect_Enemy)
  have ide: "eid e = next_id w"
    by (simp add: e_def eid_Enemy w1_def next_id_randint)
  have u: "[next_id w ..< next_id w + length (rc # cells)]
             = next_id w # [Suc (next_id w) ..< Suc (next_id w) + length cells]"
    by (simp add: upt_rec)
  show ?case
    unfolding step u using Cons.IH [of "add_enemy e w2"]
    by (simp add: es nid pos ide rc)
qed

text \<open>
  C9. Whatever the random module draws and whatever enemies the group held before, the
  grid formation leaves exactly 10 enemies in the group, at \<open>(100 + 80 c, 50 + 60 r)\<close>
  for the rows \<open>r = 0, 1\<close> and the columns \<open>c = 0, \<dots>, 4\<close>, all of them new objects.
\<close>

theorem grid_formation:
  "map position (enemies (create_enemies_formation Grid now w))
     = concat (map (\<lambda>r. map (\<lambda>c. (100 + 80 * int c, 50 + 60 * int r)) [0 ..< 5]) [0 ..< 2])
   \<and> length (enemies (create_enemies_formation Grid now w)) = 10
   \<and> map eid (enemies (create_enemies_formation Grid now w)) = [next_id w ..< next_id w + 10]"
proof -
  let ?cells = "concat (map (\<lambda>row. map (\<lambda>col. (row, col)) [0 ..< 5]) [0 ..< 2]) :: (nat \<times> nat) list"
  have c: "create_enemies_formation Grid now w = grid_cells now ?cells (w\<lparr>enemies := []\<rparr>)"
    by (simp add: create_enemies_formation_def)
  have l: "length ?cells = 10" by (simp add: upt_conv_Cons)
  have p: "map position (enemies (create_enemies_formation Grid now w))
             = map (\<lambda>(row, col). (int col * 80 + 100, int row * 60 + 50)) ?cells"
    unfolding c using grid_cells_enemies [of now ?cells "w\<lparr>enemies := []\<rparr>"] by simp
  have i: "map eid (enemies (create_enemies_formation Grid now w)) = [next_id w ..< next_id w + 10]"
    unfolding c using grid_cells_enemies [of now ?cells "w\<lparr>enemies := []\<rparr>"] l by simp
  have "length (map eid (enemies (create_enemies_formation Grid now w))) = 10"
    unfolding i by simp
  then have n: "length (enemies (create_enemies_formation Grid now w)) = 10" by simp
  show ?thesis using p i n by (simp add: upt_conv_Cons)
qed

theorem grid_formation_witness:
  "map position (enemies (create_enemies_formation Grid 0 (new_world 0 (sconst 0))))
     = [(100, 50), (180, 50), (260, 50), (340, 50), (420, 50),
        (100, 110), (180, 110), (260, 110), (340, 110), (420, 110)]
   \<and> length (enemies (create_enemies_formation Grid 0 (new_world 0 (sconst 0)))) = 10"
  using grid_formation [of 0 "new_world 0 (sconst 0)"]
  by (simp add: upt_conv_Cons)

text \<open>
  C8. An enemy at \<open>(100, 50)\<close> that carries no captured player gets, from
  \<^verbatim>\<open>start_dive(120, 850)\<close>, a path of exactly 31 points that starts at \<open>(100, 50)\<close> and
  ends at \<open>(120, 850)\<close>, whatever the random module draws for the control point. (At
  \<open>t = 0\<close> and \<open>t = 1\<close> every product of the formula is 0 or the coordinate itself, so
  the end points do not depend on rounding.)
\<close>

theorem start_dive_path:
  assumes "\<not> has_captured_player e"
      and "rect_x (e_rect e) = 100" and "rect_y (e_rect e) = 50"
  shows "length (dive_path (fst (start_dive 120 850 e w))) = 31
       \<and> hd (dive_path (fst (start_dive 120 850 e w))) = (100, 50)
       \<and> last (dive_path (fst (start_dive 120 850 e w))) = (120, 850)"
proof -
  define c where "c = 100 + fst (randint (- 100) 100 w)"
  define f where "f = (\<lambda>i::nat. (bezier (real i / 30) 100 c 120, bezier (real i / 30) 50 400 850))"
  have p: "dive_path (fst (start_dive 120 850 e w)) = map f [0 ..< 30] @ [f 30]"
    using assms by (simp add: start_dive_def Let_def split_def f_def c_def)
  have "[0 ..< 30] = 0 # [1 ..< 30]" by (simp add: upt_rec)
  then have h: "hd (map f [0 ..< 30] @ [f 30]) = f 0" by simp
  have l: "last (map f [0 ..< 30] @ [f 30]) = f 30" by simp
  have f0: "f 0 = (100, 50)" by (simp add: f_def bezier_start)
  have f30: "f 30 = (120, 850)" by (simp add: f_def bezier_end)
  show ?thesis unfolding p using h l f0 f30 by simp
qed


theorem start_dive_path_witness:
  "\<not> has_captured_player (fst (Enemy 100 50 Large 0 (new_world 0 (sconst 0))))
   \<and> rect_x (e_rect (fst (Enemy 100 50 Large 0 (new_world 0 (sconst 0))))) = 100
   \<and> rect_y (e_rect (fst (Enemy 100 50 Large 0 (new_world 0 (sconst 0))))) = 50
   \<and> length (dive_path (fst (start_dive 120 850
        (fst (Enemy 100 50 Large 0 (new_world 0 (sconst 0)))) (new_world 0 (sconst 0))))) = 31
   \<and> hd (dive_path (fst (start_dive 120 850
        (fst (Enemy 100 50 Large 0 (new_world 0 (sconst 0)))) (new_world 0 (sconst 0)))))
       = (100, 50)
   \<and> last (dive_path (fst (start_dive 120 850
        (fst (Enemy 100 50 Large 0 (new_world 0 (sconst 0)))) (new_world 0 (sconst 0)))))
       = (120, 850)"
proof -
  have h: "\<not> has_captured_player (fst (Enemy 100 50 Large 0 (new_world 0 (sconst 0))))"
    by (simp add: Enemy_def Let_def split_def)
  have x: "rect_x (e_rect (fst (Enemy 100 50 Large 0 (new_world 0 (sconst 0))))) = 100"
    by (simp add: e_rect_Enemy)
  have y: "rect_y (e_rect (fst (Enemy 100 50 Large 0 (new_world 0 (sconst 0))))) = 50"
    by (simp add: e_rect_Enemy)
  show ?thesis
    using h x y start_dive_path [OF h x y, of "new_world 0 (sconst 0)"] by simp
qed

section \<open>Captors and lives\<close>

lemmas eval_defs =
  enemy_player_collisions_def enemy_player_collision_def new_world_def Player_def Enemy_def
  randint_def uniform_def random_random_def Let_def split_def add_enemy_def colliderect_def Rect_def
  set_bottom_def set_centerx_def original_image_rect_def get_captured_def play_def
  destroy_on_contact_def hit_def

text \<open>
  C1 (the code departs from the claim). Two bosses overlap a fresh player in the same
  frame and both capture rolls succeed: the first \<^verbatim>\<open>get_captured\<close> captures the player,
  the second is refused, yet the loop sets \<open>has_captured_player\<close> on both enemies. Before
  the pass no enemy carries the flag; after it two do, while \<open>captured_by\<close> names only
  the first.
\<close>

theorem two_captors:
  "map has_captured_player
     (enemies (enemy_player_collisions 0
        (spawn 0 [(285, 740, Large), (290, 745, Large)] (new_world 0 (sconst 0)))))
     = [True, True]
   \<and> length (filter has_captured_player
        (enemies (spawn 0 [(285, 740, Large), (290, 745, Large)] (new_world 0 (sconst 0))))) = 0
   \<and> captured_by (player (enemy_player_collisions 0
        (spawn 0 [(285, 740, Large), (290, 745, Large)] (new_world 0 (sconst 0))))) = Some 0"
  by (simp add: eval_defs)

text \<open>
  C2, as stated, fails: a player with one life left who overlaps two small enemies in one
  frame is hit twice in the same pass (no invincibility is granted once \<open>lives\<close> is 0),
  and \<open>lives\<close> ends at \<open>-1\<close>; so does \<^verbatim>\<open>hit(); hit()\<close> on that player.
\<close>

theorem lives_negative:
  "lives (player ((new_world 0 (sconst 0))\<lparr>player := (Player 0)\<lparr>lives := 1\<rparr>\<rparr>)) = 1
   \<and> lives (player (enemy_player_collisions 0
        (spawn 0 [(285, 740, Small), (290, 745, Small)]
           ((new_world 0 (sconst 0))\<lparr>player := (Player 0)\<lparr>lives := 1\<rparr>\<rparr>)))) = - 1
   \<and> lives (player (hit 0 (hit 0
           ((new_world 0 (sconst 0))\<lparr>player := (Player 0)\<lparr>lives := 1\<rparr>\<rparr>)))) = - 1"
  by (simp add: eval_defs)

lemma player_random_random: "player (snd (random_random w)) = player w"
  by (simp add: random_random_def)

lemma player_randint: "player (snd (randint a b w)) = player w"
  by (simp add: randint_def random_random_def)

lemma player_uniform: "player (snd (uniform a b w)) = player w"
  by (simp add: uniform_def random_random_def)

lemma player_Enemy: "player (snd (Enemy x y k now w)) = player w"
  by (simp add: Enemy_def Let_def split_def player_randint player_uniform)

lemma running_randint: "running (snd (randint a b w)) = running w"
  by (simp add: randint_def random_random_def)

lemma running_uniform: "running (snd (uniform a b w)) = running w"
  by (simp add: uniform_def random_random_def)

lemma running_Enemy: "running (snd (Enemy x y k now w)) = running w"
  by (simp add: Enemy_def Let_def split_def running_randint running_uniform)

lemma grid_cells_player:
  "player (grid_cells now cells w) = player w \<and> running (grid_cells now cells w) = running w"
proof (induction cells arbitrary: w)
  case Nil
  show ?case by simp
next
  case (Cons rc cells)
  obtain row col where rc: "rc = (row, col)" by (cases rc)
  show ?case
    by (simp add: rc split_def Let_def Cons.IH add_enemy_def player_Enemy player_randint
          running_Enemy running_randint)
qed

lemma run_game_init_player:
  "player (run_game_init now rs) = Player now \<and> running (run_game_init now rs)"
  by (simp add: run_game_init_def create_enemies_formation_def grid_cells_player new_world_def)

lemma game_over_check_running:
  "running (game_over_check w) \<Longrightarrow> 1 \<le> lives (player (game_over_check w))"
  by (simp add: game_over_check_def split: if_splits)

lemma frame_running:
  "frame inp w = Some w1 \<Longrightarrow> running w1 \<Longrightarrow> 1 \<le> lives (player w1)"
  by (simp add: frame_def split: option.splits) (use game_over_check_running in blast)

lemma reachable_lives: "reachable w \<Longrightarrow> running w \<Longrightarrow> 1 \<le> lives (player w)"
proof (induction rule: reachable.induct)
  case (start now rs)
  show ?case by (simp add: run_game_init_player Player_def)
next
  case (step w inp w1)
  from step.hyps(3) step.prems show ?case by (rule frame_running)
qed

text \<open>
  C2, amended. In every reachable state in which the loop is still running the player
  has at least one life, and from a state with at least one life a single \<^verbatim>\<open>hit()\<close> or
  \<^verbatim>\<open>get_captured(captor)\<close> leaves \<open>lives\<close> at 0 or more.
\<close>

theorem lives_bounds:
  "(reachable w \<and> running w \<longrightarrow> 1 \<le> lives (player w))
   \<and> (1 \<le> lives (player w) \<longrightarrow>
        0 \<le> lives (player (hit now w)) \<and> 0 \<le> lives (player (get_captured c w)))"
proof -
  have a: "reachable w \<and> running w \<longrightarrow> 1 \<le> lives (player w)"
    using reachable_lives by blast
  have b: "lives (player w) - 1 \<le> lives (player (hit now w))"
    by (simp add: hit_def play_def Let_def)
  have c: "lives (player w) - 1 \<le> lives (player (get_captured c w))"
    by (simp add: get_captured_def play_def Let_def)
  show ?thesis using a b c by auto
qed

theorem lives_bounds_witness:
  "reachable (run_game_init 0 (sconst 0)) \<and> running (run_game_init 0 (sconst 0))
   \<and> lives (player (run_game_init 0 (sconst 0))) = 3
   \<and> lives (player (hit 0 (run_game_init 0 (sconst 0)))) = 2
   \<and> lives (player (get_captured 4 (run_game_init 0 (sconst 0)))) = 2"
  using lives_bounds [of "run_game_init 0 (sconst 0)" 0 4] reachable.start [of 0 "sconst 0"]
  by (simp add: run_game_init_player Player_def hit_def get_captured_def play_def Let_def)


section \<open>The dive scheduler\<close>

lemma randint_range:
  assumes "a \<le> b"
  shows "a \<le> fst (randint a b w) \<and> fst (randint a b w) \<le> b"
proof -
  define u where "u = frac (shd (rng w))"
  define n where "n = b - a + 1"
  have u0: "0 \<le> u" and u1: "u < 1" by (simp_all add: u_def frac_lt_1)
  have n1: "1 \<le> n" using assms by (simp add: n_def)
  have lo: "0 \<le> u * of_int n" using u0 n1 by simp
  have hi: "u * of_int n < of_int n" using u1 n1 by simp
  have f0: "0 \<le> \<lfloor>u * of_int n\<rfloor>" using lo by simp
  have f1: "\<lfloor>u * of_int n\<rfloor> < n" using hi by (simp add: floor_less_iff)
  have r: "fst (randint a b w) = a + \<lfloor>u * of_int n\<rfloor>"
    by (simp add: randint_def random_random_def u_def n_def)
  show ?thesis unfolding r using f0 f1 by (simp add: n_def)
qed

lemma snd_randint: "snd (randint a b w) = w\<lparr>rng := stl (rng w)\<rparr>"
  by (simp add: randint_def random_random_def)

lemma sample_world:
  "enemies (snd (sample pool k w)) = enemies w \<and> player (snd (sample pool k w)) = player w
   \<and> last_dive_time (snd (sample pool k w)) = last_dive_time w"
proof (induction k arbitrary: pool w)
  case 0
  show ?case by simp
next
  case (Suc k)
  show ?case by (simp add: split_def Let_def Suc.IH snd_randint)
qed

lemma sample_distinct:
  "distinct pool \<Longrightarrow>
     distinct (fst (sample pool k w)) \<and> set (fst (sample pool k w)) \<subseteq> set pool
     \<and> length (fst (sample pool k w)) = min k (length pool)"
proof (induction k arbitrary: pool w)
  case 0
  show ?case by simp
next
  case (Suc k)
  show ?case
  proof (cases "pool = []")
    case True
    then show ?thesis by simp
  next
    case False
    define j where "j = nat (fst (randint 0 (int (length pool) - 1) w))"
    define w1 where "w1 = snd (randint 0 (int (length pool) - 1) w)"
    define rest where "rest = take j pool @ drop (Suc j) pool"
    have len: "0 < length pool" using False by simp
    then have "0 \<le> int (length pool) - 1" by simp
    from randint_range [OF this, of w] have jl: "j < length pool"
      unfolding j_def using len by linarith
    have split: "pool = take j pool @ pool ! j # drop (Suc j) pool"
      using jl by (rule id_take_nth_drop)
    have d: "distinct (take j pool @ pool ! j # drop (Suc j) pool)"
      using Suc.prems split by simp
    then have dr: "distinct rest" and nin: "pool ! j \<notin> set rest"
      by (simp_all add: rest_def)
    have sub: "set rest \<subseteq> set pool"
      unfolding rest_def using set_take_subset [of j pool] set_drop_subset [of "Suc j" pool]
      by (simp add: subset_iff)
    have lr: "length rest = length pool - 1"
      using jl by (simp add: rest_def)
    have mem: "pool ! j \<in> set pool" using jl by simp
    have eq: "fst (sample pool (Suc k) w) = pool ! j # fst (sample rest k w1)"
      using False by (simp add: split_def Let_def j_def w1_def rest_def)
    from Suc.IH [OF dr, of w1]
    have ih1: "distinct (fst (sample rest k w1))"
      and ih2: "set (fst (sample rest k w1)) \<subseteq> set rest"
      and ih3: "length (fst (sample rest k w1)) = min k (length rest)" by simp_all
    have c1: "distinct (fst (sample pool (Suc k) w))"
      unfolding eq using ih1 ih2 nin by (simp add: subset_iff) blast
    have c2: "set (fst (sample pool (Suc k) w)) \<subseteq> set pool"
      unfolding eq using ih2 sub mem by (simp add: subset_iff)
    have m: "Suc (min k (length pool - 1)) = min (Suc k) (length pool)"
      using len by arith
    have "length (pool ! j # fst (sample rest k w1)) = Suc (min k (length pool - 1))"
      using ih3 lr by simp
    then have c3: "length (fst (sample pool (Suc k) w)) = min (Suc k) (length pool)"
      unfolding eq m .
    show ?thesis using c1 c2 c3 by simp
  qed
qed

lemma diving_enemies_chosen:
  assumes "enemies w \<noteq> []"
  shows "distinct (fst (diving_enemies w))
       \<and> (\<forall>i \<in> set (fst (diving_enemies w)). i < length (enemies w))
       \<and> 1 \<le> length (fst (diving_enemies w)) \<and> length (fst (diving_enemies w)) \<le> 2"
proof -
  define r where "r = fst (randint 1 2 w)"
  define w1 where "w1 = snd (randint 1 2 w)"
  define k where "k = nat (min r (int (length (enemies w))))"
  have e1: "enemies w1 = enemies w" by (simp add: w1_def snd_randint)
  have r12: "1 \<le> r \<and> r \<le> 2" unfolding r_def using randint_range [of 1 2 w] by simp
  have len: "1 \<le> length (enemies w)" using assms by (cases "enemies w") simp_all
  have k12: "1 \<le> k \<and> k \<le> 2 \<and> k \<le> length (enemies w)"
    unfolding k_def using r12 len by linarith
  have eq: "fst (diving_enemies w) = fst (sample [0 ..< length (enemies w)] k w1)"
    by (simp add: diving_enemies_def split_def Let_def r_def w1_def k_def e1 [unfolded w1_def])
  have "distinct [0 ..< length (enemies w)]" by simp
  from sample_distinct [OF this, of k w1]
  have s1: "distinct (fst (sample [0 ..< length (enemies w)] k w1))"
   and s2: "set (fst (sample [0 ..< length (enemies w)] k w1)) \<subseteq> set [0 ..< length (enemies w)]"
   and s3: "length (fst (sample [0 ..< length (enemies w)] k w1)) = min k (length [0 ..< length (enemies w)])"
    by simp_all
  have a: "\<forall>i \<in> set (fst (diving_enemies w)). i < length (enemies w)"
    unfolding eq using s2 by (simp add: subset_iff)
  have b: "length (fst (diving_enemies w)) = k"
    unfolding eq using s3 k12 by simp
  show ?thesis using s1 a b k12 unfolding eq by simp
qed

lemma diving_enemies_world:
  "enemies (snd (diving_enemies w)) = enemies w \<and> player (snd (diving_enemies w)) = player w
   \<and> last_dive_time (snd (diving_enemies w)) = last_dive_time w"
  by (simp add: diving_enemies_def split_def Let_def sample_world snd_randint)


lemma start_dive_world:
  "enemies (snd (start_dive tx ty e w)) = enemies w
   \<and> player (snd (start_dive tx ty e w)) = player w
   \<and> last_dive_time (snd (start_dive tx ty e w)) = last_dive_time w"
  by (simp add: start_dive_def split_def Let_def snd_randint)

lemma start_dive_props:
  assumes "\<not> has_captured_player e"
  shows "is_diving (fst (start_dive tx ty e w))
       \<and> dive_index (fst (start_dive tx ty e w)) = 0
       \<and> length (dive_path (fst (start_dive tx ty e w))) = 31
       \<and> hd (dive_path (fst (start_dive tx ty e w))) = position e
       \<and> last (dive_path (fst (start_dive tx ty e w))) = (tx, ty)"
proof -
  define sx where "sx = rect_x (e_rect e)"
  define sy where "sy = rect_y (e_rect e)"
  define cx where "cx = sx + fst (randint (- 100) 100 w)"
  define cy where "cy = (sy + ty) div 2 - 50"
  define f where "f = (\<lambda>i::nat. (bezier (real i / 30) sx cx tx, bezier (real i / 30) sy cy ty))"
  have p: "dive_path (fst (start_dive tx ty e w)) = map f [0 ..< 30] @ [f 30]"
    using assms by (simp add: start_dive_def Let_def split_def f_def cx_def cy_def sx_def sy_def)
  have "[0 ..< 30] = 0 # [1 ..< 30]" by (simp add: upt_rec)
  then have h: "hd (map f [0 ..< 30] @ [f 30]) = f 0" by simp
  have l: "last (map f [0 ..< 30] @ [f 30]) = f 30" by simp
  have f0: "f 0 = position e" by (simp add: f_def bezier_start position_def sx_def sy_def)
  have f30: "f 30 = (tx, ty)" by (simp add: f_def bezier_end)
  have d: "is_diving (fst (start_dive tx ty e w)) \<and> dive_index (fst (start_dive tx ty e w)) = 0"
    using assms by (simp add: start_dive_def Let_def split_def)
  show ?thesis unfolding p using d h l f0 f30 by simp
qed

lemma dive_loop_effect:
  assumes "distinct chosen" and "\<forall>i \<in> set chosen. i < length (enemies w)"
  shows "length (enemies (dive_loop chosen w)) = length (enemies w)
       \<and> player (dive_loop chosen w) = player w
       \<and> last_dive_time (dive_loop chosen w) = last_dive_time w
       \<and> (\<forall>i < length (enemies w).
            if i \<in> set chosen \<and> eligible (enemies w ! i)
            then dive_started (player w) (enemies w ! i) (enemies (dive_loop chosen w) ! i)
            else enemies (dive_loop chosen w) ! i = enemies w ! i)"
  using assms
proof (induction chosen arbitrary: w)
  case Nil
  show ?case by simp
next
  case (Cons i rest)
  define e where "e = enemies w ! i"
  have il: "i < length (enemies w)" using Cons.prems(2) by simp
  have inr: "i \<notin> set rest" and dr: "distinct rest" using Cons.prems(1) by simp_all
  show ?case
  proof (cases "eligible e")
    case False
    have c: "(\<not> is_diving (enemies w ! i) \<and> \<not> has_captured_player (enemies w ! i)) = False"
      using False by (simp add: eligible_def e_def)
    have eq: "dive_loop (i # rest) w = dive_loop rest w"
      by (simp add: Let_def c)
    have "\<forall>j \<in> set rest. j < length (enemies w)" using Cons.prems(2) by simp
    from Cons.IH [OF dr this]
    have ih: "length (enemies (dive_loop rest w)) = length (enemies w)
            \<and> player (dive_loop rest w) = player w
            \<and> last_dive_time (dive_loop rest w) = last_dive_time w"
     and ihq: "\<forall>j < length (enemies w).
                 if j \<in> set rest \<and> eligible (enemies w ! j)
                 then dive_started (player w) (enemies w ! j) (enemies (dive_loop rest w) ! j)
                 else enemies (dive_loop rest w) ! j = enemies w ! j"
      by simp_all
    have "\<forall>j < length (enemies w).
            if j \<in> set (i # rest) \<and> eligible (enemies w ! j)
            then dive_started (player w) (enemies w ! j) (enemies (dive_loop rest w) ! j)
            else enemies (dive_loop rest w) ! j = enemies w ! j"
    proof (intro allI impI)
      fix j assume jl: "j < length (enemies w)"
      show "if j \<in> set (i # rest) \<and> eligible (enemies w ! j)
            then dive_started (player w) (enemies w ! j) (enemies (dive_loop rest w) ! j)
            else enemies (dive_loop rest w) ! j = enemies w ! j"
      proof (cases "j = i")
        case True
        then show ?thesis using ihq jl inr False by (simp add: e_def)
      next
        case False
        then show ?thesis using ihq jl by simp
      qed
    qed
    then show ?thesis unfolding eq using ih by simp
  next
    case True
    then have nc: "\<not> has_captured_player e" by (simp add: eligible_def)
    define r where "r = fst (randint (- 50) 50 w)"
    define w1 where "w1 = snd (randint (- 50) 50 w)"
    define tx where "tx = centerx (p_rect (player w)) + r"
    define e1 where "e1 = fst (start_dive tx (WINDOW_HEIGHT + 50) e w1)"
    define w2 where "w2 = snd (start_dive tx (WINDOW_HEIGHT + 50) e w1)"
    define w3 where "w3 = w2\<lparr>enemies := (enemies w2)[i := e1]\<rparr>"
    have w1f: "enemies w1 = enemies w \<and> player w1 = player w \<and> last_dive_time w1 = last_dive_time w"
      by (simp add: w1_def snd_randint)
    have w2f: "enemies w2 = enemies w \<and> player w2 = player w \<and> last_dive_time w2 = last_dive_time w"
      using start_dive_world [of tx "WINDOW_HEIGHT + 50" e w1] w1f by (simp add: w2_def)
    have w3e: "enemies w3 = (enemies w)[i := e1]"
     and w3p: "player w3 = player w"
     and w3l: "last_dive_time w3 = last_dive_time w"
      using w2f by (simp_all add: w3_def)
    have c: "(\<not> is_diving (enemies w ! i) \<and> \<not> has_captured_player (enemies w ! i)) = True"
      using True by (simp add: eligible_def e_def)
    have eq: "dive_loop (i # rest) w = dive_loop rest w3"
      using w1f
      by (simp add: Let_def split_def c w3_def w2_def e1_def tx_def r_def w1_def e_def)
    have rr: "- 50 \<le> r \<and> r \<le> 50" unfolding r_def using randint_range [of "- 50" 50 w] by simp
    from start_dive_props [OF nc, of tx "WINDOW_HEIGHT + 50" w1]
    have ds: "dive_started (player w) e e1"
      unfolding dive_started_def e1_def [symmetric]
      using rr by (auto simp: tx_def intro!: exI [of _ tx])
    have "\<forall>j \<in> set rest. j < length (enemies w3)" using Cons.prems(2) w3e by simp
    note ih3 = Cons.IH [OF dr this, unfolded w3e w3p w3l length_list_update]
    have ih: "length (enemies (dive_loop rest w3)) = length (enemies w)
            \<and> player (dive_loop rest w3) = player w
            \<and> last_dive_time (dive_loop rest w3) = last_dive_time w"
     and ihq: "\<forall>j < length (enemies w).
                 if j \<in> set rest \<and> eligible ((enemies w)[i := e1] ! j)
                 then dive_started (player w) ((enemies w)[i := e1] ! j)
                        (enemies (dive_loop rest w3) ! j)
                 else enemies (dive_loop rest w3) ! j = (enemies w)[i := e1] ! j"
      using ih3 by simp_all
    have "\<forall>j < length (enemies w).
            if j \<in> set (i # rest) \<and> eligible (enemies w ! j)
            then dive_started (player w) (enemies w ! j) (enemies (dive_loop rest w3) ! j)
            else enemies (dive_loop rest w3) ! j = enemies w ! j"
    proof (intro allI impI)
      fix j assume jl: "j < length (enemies w)"
      show "if j \<in> set (i # rest) \<and> eligible (enemies w ! j)
            then dive_started (player w) (enemies w ! j) (enemies (dive_loop rest w3) ! j)
            else enemies (dive_loop rest w3) ! j = enemies w ! j"
      proof (cases "j = i")
        case True
        have "enemies (dive_loop rest w3) ! i = e1"
          using ihq il inr by simp
        then show ?thesis using True \<open>eligible e\<close> ds by (simp add: e_def)
      next
        case False
        have nth: "(enemies w)[i := e1] ! j = enemies w ! j" using False by simp
        from ihq jl
        have "if j \<in> set rest \<and> eligible ((enemies w)[i := e1] ! j)
              then dive_started (player w) ((enemies w)[i := e1] ! j)
                     (enemies (dive_loop rest w3) ! j)
              else enemies (dive_loop rest w3) ! j = (enemies w)[i := e1] ! j"
          by blast
        then show ?thesis unfolding nth using False by simp
      qed
    qed
    then show ?thesis unfolding eq using ih by simp
  qed
qed


lemmas dive_eval_defs =
  dive_scheduler_def diving_enemies_def start_dive_def new_world_def Player_def Enemy_def
  randint_def uniform_def random_random_def Let_def split_def add_enemy_def Rect_def
  set_bottom_def set_centerx_def original_image_rect_def centerx_def

text \<open>
  C7, as stated, fails: of two enemies the first is already diving and the second is
  eligible; the interval has passed, the scheduler samples one enemy, the diving one,
  skips it, and no dive starts: the enemies are left exactly as they were.
\<close>

theorem dive_skips_eligible:
  "3000 < 3001 - last_dive_time
      (dive_loop [0] (spawn 0 [(100, 50, Small), (180, 50, Small)] (new_world 0 (sconst 0))))
   \<and> map eligible (enemies
        (dive_loop [0] (spawn 0 [(100, 50, Small), (180, 50, Small)] (new_world 0 (sconst 0)))))
       = [False, True]
   \<and> fst (diving_enemies
        ((dive_loop [0] (spawn 0 [(100, 50, Small), (180, 50, Small)] (new_world 0 (sconst 0))))
           \<lparr>last_dive_time := 3001\<rparr>)) = [0]
   \<and> enemies (dive_scheduler 3001
        (dive_loop [0] (spawn 0 [(100, 50, Small), (180, 50, Small)] (new_world 0 (sconst 0)))))
       = enemies
        (dive_loop [0] (spawn 0 [(100, 50, Small), (180, 50, Small)] (new_world 0 (sconst 0))))"
  by (simp add: dive_eval_defs eligible_def)

text \<open>
  C7, amended. When more than 3000 ms have passed since the last round and the group is
  not empty, the scheduler samples one or two distinct enemies from the whole group,
  eligible or not, and notes the time. \<^verbatim>\<open>start_dive\<close> is called on exactly the sampled
  enemies that are eligible (so on none, one or two): each gets a 31-point path from its
  place to a target at most 50 pixels beside the player's centre and 50 pixels below the
  screen. Every other enemy and the player are untouched. Otherwise the scheduler does
  nothing.
\<close>

theorem dive_scheduler_effect:
  "(3000 < now - last_dive_time w \<and> enemies w \<noteq> [] \<longrightarrow>
      distinct (fst (diving_enemies (w\<lparr>last_dive_time := now\<rparr>)))
    \<and> 1 \<le> length (fst (diving_enemies (w\<lparr>last_dive_time := now\<rparr>)))
    \<and> length (fst (diving_enemies (w\<lparr>last_dive_time := now\<rparr>))) \<le> 2
    \<and> (\<forall>i \<in> set (fst (diving_enemies (w\<lparr>last_dive_time := now\<rparr>))). i < length (enemies w))
    \<and> length (enemies (dive_scheduler now w)) = length (enemies w)
    \<and> player (dive_scheduler now w) = player w
    \<and> last_dive_time (dive_scheduler now w) = now
    \<and> (\<forall>i < length (enemies w).
          if i \<in> set (fst (diving_enemies (w\<lparr>last_dive_time := now\<rparr>)))
             \<and> eligible (enemies w ! i)
          then dive_started (player w) (enemies w ! i) (enemies (dive_scheduler now w) ! i)
          else enemies (dive_scheduler now w) ! i = enemies w ! i))
   \<and> (\<not> (3000 < now - last_dive_time w \<and> enemies w \<noteq> []) \<longrightarrow> dive_scheduler now w = w)"
proof (intro conjI impI)
  assume "\<not> (3000 < now - last_dive_time w \<and> enemies w \<noteq> [])"
  then have n: "\<not> (now - last_dive_time w > 3000 \<and> length (enemies w) > 0)" by simp
  show "dive_scheduler now w = w"
    unfolding dive_scheduler_def by (rule if_not_P) (rule n)
next
  assume g: "3000 < now - last_dive_time w \<and> enemies w \<noteq> []"
  define w0 where "w0 = w\<lparr>last_dive_time := now\<rparr>"
  define chosen where "chosen = fst (diving_enemies w0)"
  define w1 where "w1 = snd (diving_enemies w0)"
  have w0e: "enemies w0 = enemies w" and w0p: "player w0 = player w"
    and w0l: "last_dive_time w0 = now" by (simp_all add: w0_def)
  have ne: "enemies w0 \<noteq> []" using g w0e by simp
  have w1e: "enemies w1 = enemies w" and w1p: "player w1 = player w"
    and w1l: "last_dive_time w1 = now"
    using diving_enemies_world [of w0] w0e w0p w0l by (simp_all add: w1_def)
  have eq: "dive_scheduler now w = dive_loop chosen w1"
    using g by (simp add: dive_scheduler_def split_def Let_def chosen_def w1_def w0_def)
  note ch = diving_enemies_chosen [OF ne, folded chosen_def, unfolded w0e]
  have d: "distinct chosen" and r: "\<forall>i \<in> set chosen. i < length (enemies w1)"
    using ch w1e by simp_all
  note ef = dive_loop_effect [OF d r, unfolded w1e w1p w1l, folded eq]
  show "distinct (fst (diving_enemies (w\<lparr>last_dive_time := now\<rparr>)))"
    using ch by (simp add: chosen_def w0_def)
  show "1 \<le> length (fst (diving_enemies (w\<lparr>last_dive_time := now\<rparr>)))"
    using ch by (simp add: chosen_def w0_def)
  show "length (fst (diving_enemies (w\<lparr>last_dive_time := now\<rparr>))) \<le> 2"
    using ch by (simp add: chosen_def w0_def)
  show "\<forall>i \<in> set (fst (diving_enemies (w\<lparr>last_dive_time := now\<rparr>))). i < length (enemies w)"
    using ch by (simp add: chosen_def w0_def)
  show "length (enemies (dive_scheduler now w)) = length (enemies w)" using ef by simp
  show "player (dive_scheduler now w) = player w" using ef by simp
  show "last_dive_time (dive_scheduler now w) = now" using ef by simp
  show "\<forall>i < length (enemies w).
          if i \<in> set (fst (diving_enemies (w\<lparr>last_dive_time := now\<rparr>)))
             \<and> eligible (enemies w ! i)
          then dive_started (player w) (enemies w ! i) (enemies (dive_scheduler now w) ! i)
          else enemies (dive_scheduler now w) ! i = enemies w ! i"
    using ef unfolding chosen_def w0_def by blast
qed

theorem dive_scheduler_effect_witness:
  "3000 < 3001 - last_dive_time
      (spawn 0 [(100, 50, Small), (180, 50, Small)] (new_world 0 (sconst 0)))
   \<and> enemies (spawn 0 [(100, 50, Small), (180, 50, Small)] (new_world 0 (sconst 0))) \<noteq> []
   \<and> fst (diving_enemies
        ((spawn 0 [(100, 50, Small), (180, 50, Small)] (new_world 0 (sconst 0)))
           \<lparr>last_dive_time := 3001\<rparr>)) = [0]
   \<and> eligible (enemies
        (spawn 0 [(100, 50, Small), (180, 50, Small)] (new_world 0 (sconst 0))) ! 0)
   \<and> dive_started
        (player (spawn 0 [(100, 50, Small), (180, 50, Small)] (new_world 0 (sconst 0))))
        (enemies (spawn 0 [(100, 50, Small), (180, 50, Small)] (new_world 0 (sconst 0))) ! 0)
        (enemies (dive_scheduler 3001
           (spawn 0 [(100, 50, Small), (180, 50, Small)] (new_world 0 (sconst 0)))) ! 0)
   \<and> enemies (dive_scheduler 3001
        (spawn 0 [(100, 50, Small), (180, 50, Small)] (new_world 0 (sconst 0)))) ! 1
       = enemies (spawn 0 [(100, 50, Small), (180, 50, Small)] (new_world 0 (sconst 0))) ! 1
   \<and> dive_scheduler 3000
        (spawn 0 [(100, 50, Small), (180, 50, Small)] (new_world 0 (sconst 0)))
       = spawn 0 [(100, 50, Small), (180, 50, Small)] (new_world 0 (sconst 0))"
proof -
  define w where "w = spawn 0 [(100, 50, Small), (180, 50, Small)] (new_world 0 (sconst 0))"
  have a: "3000 < 3001 - last_dive_time w" by (simp add: w_def dive_eval_defs)
  have b: "enemies w \<noteq> []" by (simp add: w_def dive_eval_defs)
  have l: "length (enemies w) = 2" by (simp add: w_def dive_eval_defs)
  have c: "fst (diving_enemies (w\<lparr>last_dive_time := 3001\<rparr>)) = [0]"
    by (simp add: w_def dive_eval_defs)
  have e: "eligible (enemies w ! 0)" by (simp add: w_def dive_eval_defs eligible_def)
  have n: "\<not> (3000 < 3000 - last_dive_time w \<and> enemies w \<noteq> [])"
    by (simp add: w_def dive_eval_defs)
  from dive_scheduler_effect [of 3001 w] a b
  have q: "\<forall>i < length (enemies w).
          if i \<in> set (fst (diving_enemies (w\<lparr>last_dive_time := 3001\<rparr>)))
             \<and> eligible (enemies w ! i)
          then dive_started (player w) (enemies w ! i) (enemies (dive_scheduler 3001 w) ! i)
          else enemies (dive_scheduler 3001 w) ! i = enemies w ! i"
    by blast
  have q0: "dive_started (player w) (enemies w ! 0) (enemies (dive_scheduler 3001 w) ! 0)"
    using q [rule_format, of 0] l e unfolding c by simp
  have q1: "enemies (dive_scheduler 3001 w) ! 1 = enemies w ! 1"
    using q [rule_format, of 1] l unfolding c by simp
  have i: "dive_scheduler 3000 w = w"
    using dive_scheduler_effect [of 3000 w] n by blast
  show ?thesis using a b c e q0 q1 i unfolding w_def by blast
qed


section \<open>Captivity\<close>

lemma no_rescue_refl: "no_rescue w w"
  by (simp add: no_rescue_def)

lemma no_rescue_trans: "no_rescue w w1 \<Longrightarrow> no_rescue w1 w2 \<Longrightarrow> no_rescue w w2"
  by (simp add: no_rescue_def)

lemma no_rescue_same:
  "no_rescue w w1 \<Longrightarrow> player w2 = player w1 \<Longrightarrow> sounds w2 = sounds w1 \<Longrightarrow> no_rescue w w2"
  by (simp add: no_rescue_def rescues_def)

lemma snd_random_random: "snd (random_random w) = w\<lparr>rng := stl (rng w)\<rparr>"
  by (simp add: random_random_def)

lemma snd_uniform: "snd (uniform a b w) = w\<lparr>rng := stl (rng w)\<rparr>"
  by (simp add: uniform_def random_random_def)

lemma no_rescue_random_random: "no_rescue w w1 \<Longrightarrow> no_rescue w (snd (random_random w1))"
  by (erule no_rescue_same) (simp_all add: snd_random_random)

lemma no_rescue_randint: "no_rescue w w1 \<Longrightarrow> no_rescue w (snd (randint a b w1))"
  by (erule no_rescue_same) (simp_all add: snd_randint)

lemma no_rescue_uniform: "no_rescue w w1 \<Longrightarrow> no_rescue w (snd (uniform a b w1))"
  by (erule no_rescue_same) (simp_all add: snd_uniform)

lemma no_rescue_play:
  "s \<noteq> RescueSound \<Longrightarrow> no_rescue w w1 \<Longrightarrow> no_rescue w (play s w1)"
  by (simp add: no_rescue_def rescues_def play_def)

lemma no_rescue_step:
  "no_rescue w w1 \<Longrightarrow> rescues w2 = rescues w1
     \<Longrightarrow> (is_captured (player w1) \<longrightarrow> is_captured (player w2)) \<Longrightarrow> no_rescue w w2"
  by (simp add: no_rescue_def)

lemma shoot_obs:
  "rescues (shoot now w) = rescues w
   \<and> is_captured (player (shoot now w)) = is_captured (player w)"
  by (simp add: rescues_def shoot_def play_def add_bullet_def Let_def)

lemma hit_obs:
  "rescues (hit now w) = rescues w \<and> is_captured (player (hit now w)) = is_captured (player w)"
  by (simp add: rescues_def hit_def play_def Let_def)

lemma get_captured_obs:
  "rescues (get_captured c w) = rescues w
   \<and> (is_captured (player w) \<longrightarrow> is_captured (player (get_captured c w)))"
  by (simp add: rescues_def get_captured_def play_def Let_def)

lemma no_rescue_shoot: "no_rescue w w1 \<Longrightarrow> no_rescue w (shoot now w1)"
  by (erule no_rescue_step) (simp_all add: shoot_obs)

lemma no_rescue_hit: "no_rescue w w1 \<Longrightarrow> no_rescue w (hit now w1)"
  by (erule no_rescue_step) (simp_all add: hit_obs)

lemma no_rescue_get_captured: "no_rescue w w1 \<Longrightarrow> no_rescue w (get_captured c w1)"
  by (erule no_rescue_step) (simp_all add: get_captured_obs)

lemma no_rescue_process_events:
  "process_events now evs w1 = Some w2 \<Longrightarrow> no_rescue w w1 \<Longrightarrow> no_rescue w w2"
proof (induction now evs w1 rule: process_events.induct)
  case (1 now w1)
  then show ?case by simp
next
  case (2 now evs w1)
  then show ?case by simp
next
  case (3 now evs w1)
  have "no_rescue w (w1\<lparr>running := False\<rparr>)"
    using "3.prems"(2) by (rule no_rescue_same) simp_all
  with 3 show ?case by simp
next
  case (4 now evs w1)
  have "no_rescue w (shoot now w1)" using "4.prems"(2) by (rule no_rescue_shoot)
  with 4 show ?case by simp
next
  case (5 now evs w1)
  then show ?case by simp
qed

lemma respawn_step_obs:
  "rescues (respawn_step now w) = rescues w
   \<and> is_captured (player (respawn_step now w)) = is_captured (player w)"
  by (simp add: rescues_def respawn_step_def)

lemma update_player_obs:
  "rescues (update_player now ks w) = rescues w
   \<and> is_captured (player (update_player now ks w)) = is_captured (player w)"
  by (simp add: rescues_def update_player_def Let_def)

lemma no_rescue_respawn_step: "no_rescue w w1 \<Longrightarrow> no_rescue w (respawn_step now w1)"
  by (erule no_rescue_step) (simp_all add: respawn_step_obs)

lemma no_rescue_update_player: "no_rescue w w1 \<Longrightarrow> no_rescue w (update_player now ks w1)"
  by (erule no_rescue_step) (simp_all add: update_player_obs)

lemma enemy_shoot_obs:
  "player (enemy_shoot e w) = player w \<and> sounds (enemy_shoot e w) = sounds w"
  by (simp add: enemy_shoot_def split_def Let_def snd_random_random)

lemma no_rescue_enemy_shoot: "no_rescue w w1 \<Longrightarrow> no_rescue w (enemy_shoot e w1)"
  by (erule no_rescue_same) (simp_all add: enemy_shoot_obs)

lemma no_rescue_dive_step: "no_rescue w w1 \<Longrightarrow> no_rescue w (snd (dive_step e w1))"
  by (simp add: dive_step_def split_def Let_def no_rescue_randint no_rescue_get_captured)

lemma no_rescue_update_enemy:
  assumes "no_rescue w w1"
  shows "no_rescue w (snd (update_enemy now e w1))"
proof -
  define e1 where "e1 = e\<lparr>anim_counter := anim_counter e + 1\<rparr>"
  define s2 where "s2 =
    (if can_shoot e1 \<and> now - e_last_shot e1 > e_shoot_delay e1
     then (let (d, wa) = randint 3000 8000 (enemy_shoot e1 w1)
           in (e1\<lparr>e_last_shot := now, e_shoot_delay := d\<rparr>, wa))
     else (e1, w1))"
  define s3 where "s3 =
    (if is_diving (fst s2) then dive_step (fst s2) (snd s2)
     else (formation_step now (fst s2), snd s2))"
  have n2: "no_rescue w (snd s2)"
    using assms by (simp add: s2_def split_def Let_def no_rescue_randint no_rescue_enemy_shoot)
  have n3: "no_rescue w (snd s3)"
    using n2 by (simp add: s3_def no_rescue_dive_step)
  have eq: "snd (update_enemy now e w1) =
     (if has_captured_player (fst s3)
      then (snd s3)\<lparr>player := (player (snd s3))\<lparr>p_rect := (p_rect (player (snd s3)))
              \<lparr>rect_x := rect_x (e_rect (fst s3)) + fst (captured_player_offset (fst s3)),
               rect_y := rect_y (e_rect (fst s3)) + snd (captured_player_offset (fst s3))\<rparr>\<rparr>\<rparr>
      else snd s3)"
    by (simp only: update_enemy_def split_def Let_def s3_def s2_def e1_def
          if_distrib [of snd] snd_conv)
  show ?thesis unfolding eq using n3
    by (simp add: no_rescue_def rescues_def)
qed

lemma no_rescue_update_enemies:
  "no_rescue w w1 \<Longrightarrow> no_rescue w (snd (update_enemies now es w1))"
proof (induction es arbitrary: w1)
  case Nil
  then show ?case by simp
next
  case (Cons e es)
  have "no_rescue w (snd (update_enemy now e w1))"
    using Cons.prems by (rule no_rescue_update_enemy)
  from Cons.IH [OF this] show ?case by (simp add: split_def Let_def)
qed

lemma no_rescue_update_all: "no_rescue w w1 \<Longrightarrow> no_rescue w (update_all now ks w1)"
proof -
  assume a: "no_rescue w w1"
  define w2 where "w2 = (update_player now ks w1)
     \<lparr>bullets := List.map_filter update_bullet (bullets (update_player now ks w1)),
      enemy_bullets := List.map_filter update_enemy_bullet
                         (enemy_bullets (update_player now ks w1))\<rparr>"
  have "no_rescue w (update_player now ks w1)" using a by (rule no_rescue_update_player)
  then have "no_rescue w w2" by (rule no_rescue_same) (simp_all add: w2_def)
  then have "no_rescue w (snd (update_enemies now (enemies w2) w2))"
    by (rule no_rescue_update_enemies)
  then have "no_rescue w ((snd (update_enemies now (enemies w2) w2))
               \<lparr>enemies := fst (update_enemies now (enemies w2) w2)\<rparr>)"
    by (rule no_rescue_same) simp_all
  then show ?thesis by (simp add: update_all_def Let_def split_def w2_def)
qed


lemma no_rescue_enemy_bullet_collisions:
  "no_rescue w w1 \<Longrightarrow> no_rescue w (enemy_bullet_collisions now w1)"
proof -
  assume a: "no_rescue w w1"
  define w2 where "w2 = w1\<lparr>enemy_bullets :=
     filter (\<lambda>b. \<not> colliderect (p_rect (player w1)) (b_rect b)) (enemy_bullets w1)\<rparr>"
  have n2: "no_rescue w w2" using a by (rule no_rescue_same) (simp_all add: w2_def)
  then have n3: "no_rescue w (hit now w2)" by (rule no_rescue_hit)
  show ?thesis using a n2 n3
    by (simp add: enemy_bullet_collisions_def Let_def w2_def)
qed

lemma no_rescue_enemy_player_collision:
  assumes "no_rescue w w1"
  shows "no_rescue w (snd (enemy_player_collision now e w1))"
proof -
  define wr where "wr = snd (random_random w1)"
  define wc where "wc = get_captured (eid e) wr"
  have nr: "no_rescue w wr" using assms unfolding wr_def by (rule no_rescue_random_random)
  have nc: "no_rescue w wc" using nr unfolding wc_def by (rule no_rescue_get_captured)
  have n1: "no_rescue w (wc\<lparr>respawning := True, respawn_timer := now,
              player := (player wc)\<lparr>p_rect :=
                set_bottom (WINDOW_HEIGHT - 20)
                  (set_centerx (WINDOW_WIDTH div 2) (p_rect (player wc)))\<rparr>\<rparr>)"
    using nc by (simp add: no_rescue_def rescues_def)
  have n2: "no_rescue w (hit now wr)" using nr by (rule no_rescue_hit)
  have n3: "no_rescue w (hit now w1)" using assms by (rule no_rescue_hit)
  show ?thesis using nc n1 n2 n3
    by (simp add: enemy_player_collision_def destroy_on_contact_def split_def Let_def
          wc_def wr_def)
qed

lemma no_rescue_enemy_player_loop:
  "no_rescue w w1 \<Longrightarrow> no_rescue w (snd (enemy_player_loop now ecs w1))"
proof (induction ecs arbitrary: w1)
  case Nil
  then show ?case by simp
next
  case (Cons ec ecs)
  obtain e c where ec: "ec = (e, c)" by (cases ec)
  show ?case
  proof (cases c)
    case True
    have "no_rescue w (snd (enemy_player_collision now e w1))"
      using Cons.prems by (rule no_rescue_enemy_player_collision)
    from Cons.IH [OF this] show ?thesis
      using True by (simp add: ec split_def Let_def split: option.split)
  next
    case False
    from Cons.IH [OF Cons.prems] show ?thesis
      using False by (simp add: ec split_def Let_def)
  qed
qed

lemma no_rescue_enemy_player_collisions:
  "no_rescue w w1 \<Longrightarrow> no_rescue w (enemy_player_collisions now w1)"
proof -
  assume a: "no_rescue w w1"
  define s where "s = enemy_player_loop now
     (map (\<lambda>e. (e, colliderect (p_rect (player w1)) (e_rect e))) (enemies w1)) w1"
  have "no_rescue w (snd s)" unfolding s_def using a by (rule no_rescue_enemy_player_loop)
  then have "no_rescue w ((snd s)\<lparr>enemies := fst s\<rparr>)" by (rule no_rescue_same) simp_all
  then show ?thesis using a
    by (simp add: enemy_player_collisions_def Let_def split_def s_def)
qed

lemma no_rescue_Enemy: "no_rescue w w1 \<Longrightarrow> no_rescue w (snd (Enemy x y k now w1))"
  by (erule no_rescue_same)
     (simp_all add: Enemy_def Let_def split_def snd_randint snd_uniform)

lemma no_rescue_add_enemy: "no_rescue w w1 \<Longrightarrow> no_rescue w (add_enemy e w1)"
  by (erule no_rescue_same) (simp_all add: add_enemy_def)

lemma no_rescue_grid_cells: "no_rescue w w1 \<Longrightarrow> no_rescue w (grid_cells now cells w1)"
proof (induction cells arbitrary: w1)
  case Nil
  then show ?case by simp
next
  case (Cons rc cells)
  obtain row col where rc: "rc = (row, col)" by (cases rc)
  show ?case
    using Cons.prems
    by (simp add: rc split_def Let_def Cons.IH no_rescue_add_enemy no_rescue_Enemy
          no_rescue_randint)
qed

lemma no_rescue_spawn: "no_rescue w w1 \<Longrightarrow> no_rescue w (spawn now ps w1)"
proof (induction ps arbitrary: w1)
  case Nil
  then show ?case by simp
next
  case (Cons p ps)
  obtain x y k where p: "p = (x, y, k)" by (cases p)
  show ?case
    using Cons.prems
    by (simp add: p split_def Let_def Cons.IH no_rescue_add_enemy no_rescue_Enemy)
qed

lemma no_rescue_create_enemies_formation:
  "no_rescue w w1 \<Longrightarrow> no_rescue w (create_enemies_formation f now w1)"
proof -
  assume "no_rescue w w1"
  then have "no_rescue w (w1\<lparr>enemies := []\<rparr>)" by (rule no_rescue_same) simp_all
  then show ?thesis
    by (cases f)
       (simp_all only: create_enemies_formation_def Let_def formation.case
          no_rescue_grid_cells no_rescue_spawn)
qed

lemma no_rescue_next_wave: "no_rescue w w1 \<Longrightarrow> no_rescue w (next_wave now w1)"
proof -
  assume a: "no_rescue w w1"
  define w2 where "w2 = (play WaveCompleteSound w1)
     \<lparr>current_wave := current_wave (play WaveCompleteSound w1) + 1\<rparr>"
  have "no_rescue w (play WaveCompleteSound w1)" using a by (simp add: no_rescue_play)
  then have "no_rescue w w2" by (rule no_rescue_same) (simp_all add: w2_def)
  then have "\<And>f. no_rescue w (create_enemies_formation f now w2)"
    by (rule no_rescue_create_enemies_formation)
  then show ?thesis using a
    by (simp add: next_wave_def Let_def w2_def)
qed

lemma sample_obs:
  "player (snd (sample pool k w)) = player w \<and> sounds (snd (sample pool k w)) = sounds w"
proof (induction k arbitrary: pool w)
  case 0
  show ?case by simp
next
  case (Suc k)
  show ?case by (simp add: split_def Let_def Suc.IH snd_randint)
qed

lemma start_dive_obs:
  "player (snd (start_dive tx ty e w)) = player w
   \<and> sounds (snd (start_dive tx ty e w)) = sounds w"
  by (simp add: start_dive_def split_def Let_def snd_randint)

lemma dive_loop_obs:
  "player (dive_loop chosen w) = player w \<and> sounds (dive_loop chosen w) = sounds w"
proof (induction chosen arbitrary: w)
  case Nil
  show ?case by simp
next
  case (Cons i rest)
  show ?case
    by (simp add: split_def Let_def Cons.IH start_dive_obs snd_randint)
qed

lemma dive_scheduler_obs:
  "player (dive_scheduler now w) = player w \<and> sounds (dive_scheduler now w) = sounds w"
  by (simp add: dive_scheduler_def diving_enemies_def split_def Let_def dive_loop_obs
        sample_obs snd_randint)

lemma no_rescue_dive_scheduler: "no_rescue w w1 \<Longrightarrow> no_rescue w (dive_scheduler now w1)"
  by (erule no_rescue_same) (simp_all add: dive_scheduler_obs)

lemma no_rescue_game_over_check: "no_rescue w w1 \<Longrightarrow> no_rescue w (game_over_check w1)"
  by (erule no_rescue_same) (simp_all add: game_over_check_def)


lemma captivity_kept_refl: "captivity_kept w w"
  by (simp add: captivity_kept_def)

lemma captivity_kept_trans:
  "captivity_kept w w1 \<Longrightarrow> captivity_kept w1 w2 \<Longrightarrow> captivity_kept w w2"
  unfolding captivity_kept_def by (metis le_antisym le_trans)

lemma no_rescue_captivity_kept: "no_rescue w w1 \<Longrightarrow> captivity_kept w w1"
  by (simp add: no_rescue_def captivity_kept_def)

lemma captivity_kept_step:
  "captivity_kept w w1 \<Longrightarrow> no_rescue w1 w2 \<Longrightarrow> captivity_kept w w2"
  by (erule captivity_kept_trans) (rule no_rescue_captivity_kept)

lemma rescues_rescue: "rescues (rescue now w) = Suc (rescues w)"
  by (simp add: rescues_def rescue_def play_def Let_def)

lemma captivity_kept_rescue: "captivity_kept w w1 \<Longrightarrow> captivity_kept w (rescue now w1)"
  by (simp add: captivity_kept_def rescues_rescue)

lemma captivity_kept_hit_enemy:
  assumes "captivity_kept w (snd s)"
  shows "captivity_kept w (snd (hit_enemy now i s))"
proof -
  obtain st w1 where s: "s = (st, w1)" by (cases s)
  have k1: "captivity_kept w w1" using assms by (simp add: s)
  define e where "e = (fst (st ! i))\<lparr>health := health (fst (st ! i)) - 1\<rparr>"
  define wa where "wa = (if has_captured_player e then rescue now w1 else w1)"
  have ka: "captivity_kept w wa" using k1 by (simp add: wa_def captivity_kept_rescue)
  have "no_rescue wa ((play ExplosionSound wa)
          \<lparr>score := score (play ExplosionSound wa) + points e\<rparr>)"
    by (simp add: no_rescue_def rescues_def play_def)
  with ka have kb: "captivity_kept w ((play ExplosionSound wa)
          \<lparr>score := score (play ExplosionSound wa) + points e\<rparr>)"
    by (rule captivity_kept_step)
  show ?thesis using k1 kb
    by (simp add: s hit_enemy_def Let_def wa_def e_def)
qed

lemma captivity_kept_fold_hit_enemy:
  "captivity_kept w (snd s) \<Longrightarrow> captivity_kept w (snd (fold (hit_enemy now) hs s))"
proof (induction hs arbitrary: s)
  case Nil
  then show ?case by simp
next
  case (Cons h hs)
  have "captivity_kept w (snd (hit_enemy now h s))"
    using Cons.prems by (rule captivity_kept_hit_enemy)
  from Cons.IH [OF this] show ?case by simp
qed

lemma captivity_kept_fold_hits:
  "captivity_kept w (snd s) \<Longrightarrow>
     captivity_kept w (snd (fold (\<lambda>(b, hit_enemies) s. fold (hit_enemy now) hit_enemies s) hits s))"
proof (induction hits arbitrary: s)
  case Nil
  then show ?case by simp
next
  case (Cons bh hits)
  obtain b hs where bh: "bh = (b, hs)" by (cases bh)
  have "captivity_kept w (snd (fold (hit_enemy now) hs s))"
    using Cons.prems by (rule captivity_kept_fold_hit_enemy)
  from Cons.IH [OF this] show ?case by (simp add: bh)
qed

lemma captivity_kept_bullet_enemy_collisions:
  assumes "captivity_kept w w1"
  shows "captivity_kept w (bullet_enemy_collisions now w1)"
proof -
  define hits where "hits = groupcollide (bullets w1) (enemies w1)"
  define w0 where "w0 = w1\<lparr>bullets := filter (\<lambda>b. b \<notin> set (map fst hits)) (bullets w1)\<rparr>"
  define s where "s = fold (\<lambda>(b, hit_enemies) s. fold (hit_enemy now) hit_enemies s) hits
                        (map (\<lambda>e. (e, True)) (enemies w1), w0)"
  have "no_rescue w1 w0" by (simp add: no_rescue_def rescues_def w0_def)
  with assms have "captivity_kept w w0" by (rule captivity_kept_step)
  then have "captivity_kept w (snd (map (\<lambda>e. (e, True)) (enemies w1), w0))" by simp
  then have "captivity_kept w (snd s)" unfolding s_def by (rule captivity_kept_fold_hits)
  moreover have "no_rescue (snd s) ((snd s)\<lparr>enemies := map fst (filter snd (fst s))\<rparr>)"
    by (simp add: no_rescue_def rescues_def)
  ultimately have "captivity_kept w ((snd s)\<lparr>enemies := map fst (filter snd (fst s))\<rparr>)"
    by (rule captivity_kept_step)
  then show ?thesis
    by (simp add: bullet_enemy_collisions_def Let_def split_def s_def w0_def hits_def)
qed

lemma captivity_kept_frame:
  assumes "frame inp w = Some w1"
  shows "captivity_kept w w1"
proof -
  obtain wa where pe: "process_events (clock inp) (events inp) w = Some wa"
    using assms by (cases "process_events (clock inp) (events inp) w") (simp_all add: frame_def)
  define wb where "wb = update_all (clock inp) (pressed inp) (respawn_step (clock inp) wa)"
  define wc where "wc = bullet_enemy_collisions (clock inp) wb"
  define wd where "wd = enemy_player_collisions (clock inp)
                          (enemy_bullet_collisions (clock inp) wc)"
  have w1: "w1 = game_over_check (dive_scheduler (clock inp) (next_wave (clock inp) wd))"
    using assms
    by (simp add: frame_def pe resolve_collisions_def wd_def wc_def wb_def)
  have "no_rescue w wa" using pe no_rescue_refl by (rule no_rescue_process_events)
  then have "no_rescue w wb"
    unfolding wb_def by (intro no_rescue_update_all no_rescue_respawn_step)
  then have "captivity_kept w wb" by (rule no_rescue_captivity_kept)
  then have kc: "captivity_kept w wc"
    unfolding wc_def by (rule captivity_kept_bullet_enemy_collisions)
  have "no_rescue wc w1"
    unfolding w1 wd_def
    by (intro no_rescue_game_over_check no_rescue_dive_scheduler no_rescue_next_wave
          no_rescue_enemy_player_collisions no_rescue_enemy_bullet_collisions no_rescue_refl)
  with kc show ?thesis by (rule captivity_kept_step)
qed

lemma captivity_kept_run_game_loop:
  "run_game_loop inps w1 = Some w2 \<Longrightarrow> captivity_kept w w1 \<Longrightarrow> captivity_kept w w2"
proof (induction inps arbitrary: w1)
  case Nil
  then show ?case by simp
next
  case (Cons inp inps)
  show ?case
  proof (cases "running w1")
    case False
    with Cons.prems show ?thesis by simp
  next
    case True
    then obtain wa where f: "frame inp w1 = Some wa" and r: "run_game_loop inps wa = Some w2"
      using Cons.prems(1) by (cases "frame inp w1") simp_all
    have "captivity_kept w1 wa" using f by (rule captivity_kept_frame)
    with Cons.prems(2) have "captivity_kept w wa" by (rule captivity_kept_trans)
    with r show ?thesis by (rule Cons.IH)
  qed
qed

text \<open>
  C10. A captured player stays captured until \<^verbatim>\<open>rescue()\<close> is called: over any number of
  frames of the loop, and over a single frame, if the player is captured at the start
  and no rescue happened, the player is captured at the end. The respawn step does not
  touch \<open>is_captured\<close>; and for a captured player \<^verbatim>\<open>shoot()\<close> changes nothing and
  \<^verbatim>\<open>Player.update\<close> does not move the ship, whatever keys are held.
\<close>

theorem captivity_lasts:
  "(run_game_loop inps w = Some w2 \<and> is_captured (player w) \<and> rescues w2 = rescues w
      \<longrightarrow> is_captured (player w2))
   \<and> (frame inp w = Some w1 \<and> is_captured (player w) \<and> rescues w1 = rescues w
      \<longrightarrow> is_captured (player w1))
   \<and> is_captured (player (respawn_step now w)) = is_captured (player w)
   \<and> (is_captured (player w) \<longrightarrow>
        shoot now w = w \<and> p_rect (player (update_player now ks w)) = p_rect (player w))"
proof (intro conjI impI)
  assume a: "run_game_loop inps w = Some w2 \<and> is_captured (player w) \<and> rescues w2 = rescues w"
  then have "captivity_kept w w2"
    using captivity_kept_run_game_loop [of inps w w2 w] captivity_kept_refl by blast
  with a show "is_captured (player w2)" by (simp add: captivity_kept_def)
next
  assume a: "frame inp w = Some w1 \<and> is_captured (player w) \<and> rescues w1 = rescues w"
  then have "captivity_kept w w1" using captivity_kept_frame by blast
  with a show "is_captured (player w1)" by (simp add: captivity_kept_def)
next
  show "is_captured (player (respawn_step now w)) = is_captured (player w)"
    by (simp add: respawn_step_obs)
next
  assume "is_captured (player w)"
  then show "shoot now w = w" by (simp add: shoot_def)
next
  assume "is_captured (player w)"
  then show "p_rect (player (update_player now ks w)) = p_rect (player w)"
    by (simp add: update_player_def Let_def)
qed


lemma bullets_dive_step: "bullets (snd (dive_step e w)) = bullets w"
  by (simp add: dive_step_def split_def Let_def snd_randint get_captured_def play_def)

lemma bullets_enemy_shoot: "bullets (enemy_shoot e w) = bullets w"
  by (simp add: enemy_shoot_def split_def Let_def snd_random_random)

lemma bullets_update_enemy: "bullets (snd (update_enemy now e w)) = bullets w"
proof -
  define e1 where "e1 = e\<lparr>anim_counter := anim_counter e + 1\<rparr>"
  define s2 where "s2 =
    (if can_shoot e1 \<and> now - e_last_shot e1 > e_shoot_delay e1
     then (let (d, wa) = randint 3000 8000 (enemy_shoot e1 w)
           in (e1\<lparr>e_last_shot := now, e_shoot_delay := d\<rparr>, wa))
     else (e1, w))"
  define s3 where "s3 =
    (if is_diving (fst s2) then dive_step (fst s2) (snd s2)
     else (formation_step now (fst s2), snd s2))"
  have n2: "bullets (snd s2) = bullets w"
    by (simp add: s2_def split_def Let_def snd_randint bullets_enemy_shoot)
  have n3: "bullets (snd s3) = bullets w"
    using n2 by (simp add: s3_def bullets_dive_step)
  have eq: "snd (update_enemy now e w) =
     (if has_captured_player (fst s3)
      then (snd s3)\<lparr>player := (player (snd s3))\<lparr>p_rect := (p_rect (player (snd s3)))
              \<lparr>rect_x := rect_x (e_rect (fst s3)) + fst (captured_player_offset (fst s3)),
               rect_y := rect_y (e_rect (fst s3)) + snd (captured_player_offset (fst s3))\<rparr>\<rparr>\<rparr>
      else snd s3)"
    by (simp only: update_enemy_def split_def Let_def s3_def s2_def e1_def
          if_distrib [of snd] snd_conv)
  show ?thesis unfolding eq using n3 by simp
qed

lemma bullets_update_enemies: "bullets (snd (update_enemies now es w)) = bullets w"
proof (induction es arbitrary: w)
  case Nil
  show ?case by simp
next
  case (Cons e es)
  show ?case by (simp add: split_def Let_def Cons.IH bullets_update_enemy)
qed

lemma bullets_update_all:
  "bullets w = [] \<Longrightarrow> bullets (update_all now ks w) = []"
  by (simp add: update_all_def Let_def split_def bullets_update_enemies update_player_def
        List.map_filter_def)

lemma bullet_enemy_collisions_idle:
  assumes "bullets w = []"
  shows "bullet_enemy_collisions now w = w\<lparr>enemies := map fst (map (\<lambda>e. (e, True)) (enemies w))\<rparr>"
  using assms by (simp add: bullet_enemy_collisions_def groupcollide_def Let_def)

lemma no_rescue_bullet_enemy_collisions_idle:
  assumes "bullets w1 = []" and "no_rescue w w1"
  shows "no_rescue w (bullet_enemy_collisions now w1)"
  unfolding bullet_enemy_collisions_idle [OF assms(1)]
  using assms(2) by (rule no_rescue_same) simp_all

lemma process_events_captured:
  "is_captured (player w) \<Longrightarrow> QUIT \<notin> set evs \<Longrightarrow>
     \<exists>w1. process_events now evs w = Some w1 \<and> bullets w1 = bullets w
          \<and> player w1 = player w \<and> sounds w1 = sounds w"
proof (induction now evs w rule: process_events.induct)
  case (1 now w)
  show ?case by simp
next
  case (2 now evs w)
  then show ?case by simp
next
  case (3 now evs w)
  from "3.IH" "3.prems" show ?case by simp
next
  case (4 now evs w)
  have "shoot now w = w" using "4.prems"(1) by (simp add: shoot_def)
  with "4.IH" "4.prems" show ?case by simp
next
  case (5 now evs w)
  from "5.IH" "5.prems" show ?case by simp
qed

lemma frame_captive_no_bullets:
  assumes "is_captured (player w)" and "bullets w = []" and "QUIT \<notin> set (events inp)"
  shows "\<exists>w1. frame inp w = Some w1 \<and> no_rescue w w1"
proof -
  from process_events_captured [OF assms(1) assms(3), of "clock inp"]
  obtain wa where pe: "process_events (clock inp) (events inp) w = Some wa"
    and ba: "bullets wa = []" and pa: "player wa = player w" and sa: "sounds wa = sounds w"
    using assms(2) by auto
  define wr where "wr = respawn_step (clock inp) wa"
  define wb where "wb = update_all (clock inp) (pressed inp) wr"
  define wc where "wc = bullet_enemy_collisions (clock inp) wb"
  define w1 where "w1 = game_over_check (dive_scheduler (clock inp) (next_wave (clock inp)
     (enemy_player_collisions (clock inp) (enemy_bullet_collisions (clock inp) wc))))"
  have f: "frame inp w = Some w1"
    by (simp add: frame_def pe resolve_collisions_def w1_def wc_def wb_def wr_def)
  have na: "no_rescue w wa" using no_rescue_refl pa sa by (rule no_rescue_same)
  have br: "bullets wr = []" using ba by (simp add: wr_def respawn_step_def)
  have bb: "bullets wb = []" unfolding wb_def using br by (rule bullets_update_all)
  have "no_rescue w wb"
    unfolding wb_def wr_def using na by (intro no_rescue_update_all no_rescue_respawn_step)
  with bb have "no_rescue w wc"
    unfolding wc_def by (rule no_rescue_bullet_enemy_collisions_idle)
  then have "no_rescue w w1"
    unfolding w1_def
    by (intro no_rescue_game_over_check no_rescue_dive_scheduler no_rescue_next_wave
          no_rescue_enemy_player_collisions no_rescue_enemy_bullet_collisions)
  with f show ?thesis by blast
qed

theorem captivity_lasts_witness:
  "is_captured (player (enemy_player_collisions 0 (spawn 0 [(285, 740, Large)] (new_world 0 (sconst 0)))))
   \<and> run_game_loop [\<lparr>clock = 16, events = [KEYDOWN_SPACE],
          pressed = \<lparr>K_LEFT = True, K_RIGHT = False\<rparr>\<rparr>] (enemy_player_collisions 0 (spawn 0 [(285, 740, Large)] (new_world 0 (sconst 0))))
       = frame \<lparr>clock = 16, events = [KEYDOWN_SPACE],
          pressed = \<lparr>K_LEFT = True, K_RIGHT = False\<rparr>\<rparr>
          (enemy_player_collisions 0 (spawn 0 [(285, 740, Large)] (new_world 0 (sconst 0))))
   \<and> frame \<lparr>clock = 16, events = [KEYDOWN_SPACE],
          pressed = \<lparr>K_LEFT = True, K_RIGHT = False\<rparr>\<rparr>
        (enemy_player_collisions 0 (spawn 0 [(285, 740, Large)] (new_world 0 (sconst 0)))) \<noteq> None
   \<and> rescues (the (frame \<lparr>clock = 16, events = [KEYDOWN_SPACE],
          pressed = \<lparr>K_LEFT = True, K_RIGHT = False\<rparr>\<rparr>
        (enemy_player_collisions 0 (spawn 0 [(285, 740, Large)] (new_world 0 (sconst 0))))))
       = rescues (enemy_player_collisions 0 (spawn 0 [(285, 740, Large)] (new_world 0 (sconst 0))))
   \<and> is_captured (player (the (frame \<lparr>clock = 16, events = [KEYDOWN_SPACE],
          pressed = \<lparr>K_LEFT = True, K_RIGHT = False\<rparr>\<rparr>
        (enemy_player_collisions 0 (spawn 0 [(285, 740, Large)] (new_world 0 (sconst 0)))))))
   \<and> shoot 16 (enemy_player_collisions 0 (spawn 0 [(285, 740, Large)] (new_world 0 (sconst 0))))
       = (enemy_player_collisions 0 (spawn 0 [(285, 740, Large)] (new_world 0 (sconst 0))))"
proof -
  define w where "w = enemy_player_collisions 0
      (spawn 0 [(285, 740, Large)] (new_world 0 (sconst 0)))"
  define inp where "inp = \<lparr>clock = 16, events = [KEYDOWN_SPACE],
          pressed = \<lparr>K_LEFT = True, K_RIGHT = False\<rparr>\<rparr>"
  have c: "is_captured (player w)" by (simp add: w_def eval_defs)
  have b: "bullets w = []" by (simp add: w_def eval_defs)
  have rn: "running w" by (simp add: w_def eval_defs)
  have q: "QUIT \<notin> set (events inp)" by (simp add: inp_def)
  from frame_captive_no_bullets [OF c b q]
  obtain w1 where f: "frame inp w = Some w1" and n: "no_rescue w w1" by blast
  have r: "rescues w1 = rescues w" using n by (simp add: no_rescue_def)
  have l: "run_game_loop [inp] w = Some w1" using f rn by simp
  have k: "is_captured (player w1)"
    using captivity_lasts [of "[inp]" w w1 inp w1 16 "pressed inp"] l c r by blast
  have s: "shoot 16 w = w"
    using captivity_lasts [of "[inp]" w w1 inp w1 16 "pressed inp"] c by blast
  show ?thesis using c f l r k s unfolding w_def inp_def by simp
qed


section \<open>Bullets against enemies\<close>

lemma lethal_hits_pos: "0 < lethal_hits h k \<longleftrightarrow> 0 < k \<and> h - int k \<le> 0"
proof (induction k arbitrary: h)
  case 0
  show ?case by simp
next
  case (Suc k)
  show ?case using Suc.IH [of "h - 1"] by (simp del: of_nat_Suc add: of_nat_Suc) arith
qed

lemma lethal_hits_once:
  "int k \<le> h \<Longrightarrow> lethal_hits h k = (if 0 < k \<and> int k = h then 1 else 0)"
proof (induction k arbitrary: h)
  case 0
  show ?case by simp
next
  case (Suc k)
  have "int k \<le> h - 1" using Suc.prems by simp
  from Suc.IH [OF this] Suc.prems show ?case by simp
qed

lemma hit_enemy_step:
  "hit_enemy now i (st, w) =
     (st[i := ((fst (st ! i))\<lparr>health := health (fst (st ! i)) - 1\<rparr>,
               snd (st ! i) \<and> 0 < health (fst (st ! i)) - 1)],
      if health (fst (st ! i)) - 1 \<le> 0
      then (play ExplosionSound
              (if has_captured_player (fst (st ! i)) then rescue now w else w))
             \<lparr>score := score w + points (fst (st ! i))\<rparr>
      else w)"
  by (simp add: hit_enemy_def Let_def play_def rescue_def)


lemma fold_hits_flat:
  "fold (\<lambda>(b, hit_enemies) s. fold f hit_enemies s) hits s = fold f (concat (map snd hits)) s"
proof (induction hits arbitrary: s)
  case Nil
  show ?case by simp
next
  case (Cons bh hits)
  obtain b hs where bh: "bh = (b, hs)" by (cases bh)
  show ?case by (simp add: bh Cons.IH)
qed

lemma groupcollide_flat:
  "concat (map snd (groupcollide bs es))
     = concat (map (\<lambda>b. filter (\<lambda>i. colliderect (b_rect b) (e_rect (es ! i)))
                            [0 ..< length es]) bs)"
  unfolding groupcollide_def by (induction bs) simp_all

lemma groupcollide_bullets:
  "(b \<in> set (map fst (groupcollide bs es)))
     = (b \<in> set bs \<and> (\<exists>e \<in> set es. colliderect (b_rect b) (e_rect e)))"
proof -
  have "\<And>c. (filter (\<lambda>i. colliderect (b_rect c) (e_rect (es ! i))) [0 ..< length es] \<noteq> [])
          = (\<exists>e \<in> set es. colliderect (b_rect c) (e_rect e))"
  proof -
    fix c
    have "(\<exists>i \<in> set [0 ..< length es]. colliderect (b_rect c) (e_rect (es ! i)))
            = (\<exists>e \<in> set es. colliderect (b_rect c) (e_rect e))"
      by (simp add: Bex_def in_set_conv_nth) blast
    then show "(filter (\<lambda>i. colliderect (b_rect c) (e_rect (es ! i))) [0 ..< length es] \<noteq> [])
          = (\<exists>e \<in> set es. colliderect (b_rect c) (e_rect e))"
      by (simp only: filter_empty_conv) blast
  qed
  then show ?thesis
    unfolding groupcollide_def by (auto simp: image_iff)
qed

lemma count_list_filter_upt:
  "i < n \<Longrightarrow> count_list (filter Q [0 ..< n]) i = (if Q i then 1 else 0)"
proof (induction n)
  case 0
  then show ?case by simp
next
  case (Suc n)
  show ?case
  proof (cases "i = n")
    case True
    have "count_list (filter Q [0 ..< n]) n = 0"
      by (rule count_notin) simp
    then show ?thesis using True by simp
  next
    case False
    then have "i < n" using Suc.prems by simp
    from Suc.IH [OF this] False show ?thesis by simp
  qed
qed

lemma count_list_concat:
  "count_list (concat xss) i = sum_list (map (\<lambda>xs. count_list xs i) xss)"
  by (induction xss) simp_all

lemma count_hits:
  assumes "i < length es"
  shows "count_list (concat (map (\<lambda>b. filter (\<lambda>i. colliderect (b_rect b) (e_rect (es ! i)))
                                    [0 ..< length es]) bs)) i
         = length (filter (\<lambda>b. colliderect (b_rect b) (e_rect (es ! i))) bs)"
  using assms by (induction bs) (simp_all add: count_list_filter_upt)

lemma hits_in_range:
  "\<forall>h \<in> set (concat (map (\<lambda>b. filter (\<lambda>i. colliderect (b_rect b) (e_rect (es ! i)))
                                  [0 ..< length es]) bs)). h < length es"
  by auto


lemma rescue_frame: "bullets (rescue now w) = bullets w \<and> score (rescue now w) = score w"
  by (simp add: rescue_def play_def Let_def)

lemma hit_enemy_world:
  "bullets (snd (hit_enemy now i (st, w))) = bullets w
   \<and> score (snd (hit_enemy now i (st, w)))
       = score w + (if health (fst (st ! i)) - 1 \<le> 0 then points (fst (st ! i)) else 0)
   \<and> player (snd (hit_enemy now i (st, w)))
       = (if health (fst (st ! i)) - 1 \<le> 0 \<and> has_captured_player (fst (st ! i))
          then player (rescue now w) else player w)"
  by (simp add: hit_enemy_step play_def rescue_frame)

lemma hit_enemy_store:
  "fst (hit_enemy now i (st, w))
     = st[i := ((fst (st ! i))\<lparr>health := health (fst (st ! i)) - 1\<rparr>,
                snd (st ! i) \<and> 0 < health (fst (st ! i)) - 1)]"
  by (simp add: hit_enemy_step)

lemma after_hits_Nil: "after_hits [] eb i = eb"
  by (simp add: after_hits_def)

lemma after_hits_Cons_same:
  "after_hits hs ((fst eb)\<lparr>health := health (fst eb) - 1\<rparr>, snd eb \<and> 0 < health (fst eb) - 1) h
     = after_hits (h # hs) eb h"
  by (simp add: after_hits_def del: of_nat_Suc add: of_nat_Suc algebra_simps)

lemma after_hits_Cons_other: "i \<noteq> h \<Longrightarrow> after_hits (h # hs) eb i = after_hits hs eb i"
  by (simp add: after_hits_def)

lemma fold_hit_enemy_store:
  "\<forall>h \<in> set hs. h < length st \<Longrightarrow>
     fst (fold (hit_enemy now) hs (st, w))
       = map (\<lambda>i. after_hits hs (st ! i) i) [0 ..< length st]"
proof (induction hs arbitrary: st w)
  case Nil
  show ?case by (simp add: after_hits_Nil map_nth)
next
  case (Cons h hs)
  define st1 where "st1 = fst (hit_enemy now h (st, w))"
  define w1 where "w1 = snd (hit_enemy now h (st, w))"
  have hl: "h < length st" using Cons.prems by simp
  have s1: "st1 = st[h := ((fst (st ! h))\<lparr>health := health (fst (st ! h)) - 1\<rparr>,
                          snd (st ! h) \<and> 0 < health (fst (st ! h)) - 1)]"
    by (simp add: st1_def hit_enemy_store)
  have l1: "length st1 = length st" by (simp add: s1)
  have r1: "\<forall>x \<in> set hs. x < length st1" using Cons.prems l1 by simp
  have "fst (fold (hit_enemy now) (h # hs) (st, w)) = fst (fold (hit_enemy now) hs (st1, w1))"
    by (simp add: st1_def w1_def)
  also have "\<dots> = map (\<lambda>i. after_hits hs (st1 ! i) i) [0 ..< length st]"
    using Cons.IH [OF r1, of w1] l1 by simp
  also have "\<dots> = map (\<lambda>i. after_hits (h # hs) (st ! i) i) [0 ..< length st]"
  proof (rule map_cong [OF refl])
    fix i assume "i \<in> set [0 ..< length st]"
    then have il: "i < length st" by simp
    show "after_hits hs (st1 ! i) i = after_hits (h # hs) (st ! i) i"
    proof (cases "i = h")
      case True
      have "st1 ! h = ((fst (st ! h))\<lparr>health := health (fst (st ! h)) - 1\<rparr>,
                       snd (st ! h) \<and> 0 < health (fst (st ! h)) - 1)"
        using hl by (simp only: s1 nth_list_update_eq)
      then show ?thesis unfolding True by (simp only: after_hits_Cons_same)
    next
      case False
      then show ?thesis by (simp add: s1 after_hits_Cons_other)
    qed
  qed
  finally show ?case .
qed


lemma fold_hit_enemy_bullets: "bullets (snd (fold (hit_enemy now) hs s)) = bullets (snd s)"
proof (induction hs arbitrary: s)
  case Nil
  show ?case by simp
next
  case (Cons h hs)
  obtain st w where s: "s = (st, w)" by (cases s)
  show ?case by (simp add: Cons.IH s hit_enemy_world)
qed

lemma fold_hit_enemy_score:
  "\<forall>h \<in> set hs. h < length st \<Longrightarrow>
     score (snd (fold (hit_enemy now) hs (st, w)))
       = score w + (\<Sum>i < length st. award hs (st ! i) i)"
proof (induction hs arbitrary: st w)
  case Nil
  show ?case by (simp add: award_def)
next
  case (Cons h hs)
  define st1 where "st1 = fst (hit_enemy now h (st, w))"
  define w1 where "w1 = snd (hit_enemy now h (st, w))"
  define d where "d = (if health (fst (st ! h)) - 1 \<le> 0 then points (fst (st ! h)) else 0)"
  have hl: "h < length st" using Cons.prems by simp
  have s1: "st1 = st[h := ((fst (st ! h))\<lparr>health := health (fst (st ! h)) - 1\<rparr>,
                          snd (st ! h) \<and> 0 < health (fst (st ! h)) - 1)]"
    by (simp add: st1_def hit_enemy_store)
  have l1: "length st1 = length st" by (simp add: s1)
  have r1: "\<forall>x \<in> set hs. x < length st1" using Cons.prems l1 by simp
  have sc1: "score w1 = score w + d" by (simp add: w1_def d_def hit_enemy_world)
  have tm: "award (h # hs) (st ! i) i = award hs (st1 ! i) i + (if i = h then d else 0)"
    if "i < length st" for i
  proof (cases "i = h")
    case True
    have "st1 ! h = ((fst (st ! h))\<lparr>health := health (fst (st ! h)) - 1\<rparr>,
                     snd (st ! h) \<and> 0 < health (fst (st ! h)) - 1)"
      using hl by (simp only: s1 nth_list_update_eq)
    then show ?thesis unfolding True by (simp add: award_def d_def algebra_simps)
  next
    case False
    then show ?thesis by (simp add: s1 award_def)
  qed
  have "(\<Sum>i < length st. award (h # hs) (st ! i) i)
          = (\<Sum>i < length st. award hs (st1 ! i) i + (if i = h then d else 0))"
    by (rule sum.cong [OF refl]) (simp add: tm)
  also have "\<dots> = (\<Sum>i < length st. award hs (st1 ! i) i)
                    + (\<Sum>i < length st. if i = h then d else 0)"
    by (rule sum.distrib)
  also have "(\<Sum>i < length st. if i = h then d else 0) = d"
    using hl by (simp add: sum.delta)
  finally have sm: "(\<Sum>i < length st. award (h # hs) (st ! i) i)
          = (\<Sum>i < length st. award hs (st1 ! i) i) + d" .
  have "score (snd (fold (hit_enemy now) (h # hs) (st, w)))
          = score (snd (fold (hit_enemy now) hs (st1, w1)))"
    by (simp add: st1_def w1_def)
  also have "\<dots> = score w1 + (\<Sum>i < length st. award hs (st1 ! i) i)"
    using Cons.IH [OF r1, of w1] l1 by simp
  finally show ?case using sc1 sm by simp
qed

lemma rescue_player_cong:
  "player w1 = player w2 \<Longrightarrow> player (rescue now w1) = player (rescue now w2)"
  by (simp add: rescue_def play_def Let_def)

lemma rescue_idem:
  assumes "ships_ok (player w)"
  shows "player (rescue now (rescue now w)) = player (rescue now w)"
proof -
  have m: "max_combined_ships (player w) = 2" using assms by (simp add: ships_ok_def)
  have "combined_ships (player w) = 1 \<or> combined_ships (player w) = 2"
    using assms by (simp add: ships_ok_def)
  then show ?thesis
  proof
    assume "combined_ships (player w) = 1"
    then show ?thesis using m by (simp add: rescue_def play_def Let_def)
  next
    assume "combined_ships (player w) = 2"
    then show ?thesis using m by (simp add: rescue_def play_def Let_def)
  qed
qed

lemma fold_hit_enemy_player:
  "\<forall>h \<in> set hs. h < length st \<Longrightarrow> ships_ok (player w) \<Longrightarrow>
     player (snd (fold (hit_enemy now) hs (st, w)))
       = (if \<exists>i < length st. frees hs (st ! i) i then player (rescue now w) else player w)"
proof (induction hs arbitrary: st w)
  case Nil
  show ?case by (simp add: frees_def)
next
  case (Cons h hs)
  define st1 where "st1 = fst (hit_enemy now h (st, w))"
  define w1 where "w1 = snd (hit_enemy now h (st, w))"
  define now_free where
    "now_free = (health (fst (st ! h)) - 1 \<le> 0 \<and> has_captured_player (fst (st ! h)))"
  have hl: "h < length st" using Cons.prems(1) by simp
  have s1: "st1 = st[h := ((fst (st ! h))\<lparr>health := health (fst (st ! h)) - 1\<rparr>,
                          snd (st ! h) \<and> 0 < health (fst (st ! h)) - 1)]"
    by (simp add: st1_def hit_enemy_store)
  have l1: "length st1 = length st" by (simp add: s1)
  have r1: "\<forall>x \<in> set hs. x < length st1" using Cons.prems(1) l1 by simp
  have p1: "player w1 = (if now_free then player (rescue now w) else player w)"
    by (simp add: w1_def now_free_def hit_enemy_world)
  have ok1: "ships_ok (player w1)"
    using Cons.prems(2) ships_ok_rescue [of w now] by (simp add: p1)
  have sh: "st1 ! h = ((fst (st ! h))\<lparr>health := health (fst (st ! h)) - 1\<rparr>,
                       snd (st ! h) \<and> 0 < health (fst (st ! h)) - 1)"
    using hl by (simp only: s1 nth_list_update_eq)
  have fh: "frees (h # hs) (st ! h) h = (now_free \<or> frees hs (st1 ! h) h)"
    unfolding sh by (auto simp: frees_def now_free_def)
  have fo: "frees (h # hs) (st ! i) i = frees hs (st1 ! i) i" if "i \<noteq> h" for i
    using that by (simp add: s1 frees_def)
  define E where "E = (\<exists>i < length st. frees hs (st1 ! i) i)"
  have ex: "(\<exists>i < length st. frees (h # hs) (st ! i) i) = (now_free \<or> E)"
    unfolding E_def using fh fo hl by metis
  have ih: "player (snd (fold (hit_enemy now) hs (st1, w1)))
     = (if E then player (rescue now w1) else player w1)"
    unfolding E_def using Cons.IH [OF r1 ok1] l1 by simp
  have eq: "player (snd (fold (hit_enemy now) (h # hs) (st, w)))
          = player (snd (fold (hit_enemy now) hs (st1, w1)))"
    by (simp add: st1_def w1_def)
  show ?case
  proof (cases now_free)
    case True
    have "player w1 = player (rescue now w)" using True p1 by simp
    moreover from this have "player (rescue now w1) = player (rescue now (rescue now w))"
      by (rule rescue_player_cong)
    ultimately show ?thesis
      unfolding eq ih ex using True rescue_idem [OF Cons.prems(2), of now] by simp
  next
    case False
    have "player w1 = player w" using False p1 by simp
    moreover from this have "player (rescue now w1) = player (rescue now w)"
      by (rule rescue_player_cong)
    ultimately show ?thesis unfolding eq ih ex using False by simp
  qed
qed


lemma bullet_pass_fold:
  "bullet_enemy_collisions now w =
     (snd (fold (hit_enemy now) (concat (map snd (groupcollide (bullets w) (enemies w))))
            (map (\<lambda>e. (e, True)) (enemies w),
             w\<lparr>bullets := filter (\<lambda>b. b \<notin> set (map fst (groupcollide (bullets w) (enemies w))))
                              (bullets w)\<rparr>)))
       \<lparr>enemies := map fst (filter snd
          (fst (fold (hit_enemy now) (concat (map snd (groupcollide (bullets w) (enemies w))))
            (map (\<lambda>e. (e, True)) (enemies w),
             w\<lparr>bullets := filter (\<lambda>b. b \<notin> set (map fst (groupcollide (bullets w) (enemies w))))
                              (bullets w)\<rparr>))))\<rparr>"
  by (simp only: bullet_enemy_collisions_def Let_def fold_hits_flat) (simp only: split_def)

lemma bullet_pass_parts:
  fixes now w
  defines "es \<equiv> enemies w"
  defines "hs \<equiv> concat (map snd (groupcollide (bullets w) (enemies w)))"
  defines "w0 \<equiv> w\<lparr>bullets := filter (\<lambda>b. b \<notin> set (map fst (groupcollide (bullets w) (enemies w))))
                              (bullets w)\<rparr>"
  defines "s \<equiv> fold (hit_enemy now) hs (map (\<lambda>e. (e, True)) es, w0)"
  shows "fst s = map (\<lambda>e. (e\<lparr>health := health e - int (hits_on w e)\<rparr>,
                           lethal_hits (health e) (hits_on w e) = 0)) es"
    and "score (snd s)
           = score w + (\<Sum>e\<leftarrow>es. points e * int (lethal_hits (health e) (hits_on w e)))"
    and "ships_ok (player w) \<Longrightarrow>
           player (snd s)
             = (if \<exists>e \<in> set es. has_captured_player e \<and> 0 < lethal_hits (health e) (hits_on w e)
                then player (rescue now w) else player w)"
    and "bullets (snd s)
           = filter (\<lambda>b. \<forall>e \<in> set es. \<not> colliderect (b_rect b) (e_rect e)) (bullets w)"
proof -
  let ?st0 = "map (\<lambda>e. (e, True)) es"
  let ?G = "\<lambda>e. (e\<lparr>health := health e - int (hits_on w e)\<rparr>,
                  lethal_hits (health e) (hits_on w e) = 0)"
  have hs: "hs = concat (map (\<lambda>b. filter (\<lambda>i. colliderect (b_rect b) (e_rect (es ! i)))
                                     [0 ..< length es]) (bullets w))"
    by (simp add: hs_def es_def groupcollide_flat)
  have rng: "\<forall>h \<in> set hs. h < length ?st0"
    unfolding hs using hits_in_range [of es "bullets w"] by simp
  have cnt: "count_list hs i = hits_on w (es ! i)" if "i < length es" for i
    unfolding hs hits_on_def using that by (rule count_hits)
  have nth0: "?st0 ! i = (es ! i, True)" if "i < length es" for i
    using that by simp
  have ah: "after_hits hs (es ! i, True) i = ?G (es ! i)" if "i < length es" for i
    using that by (simp add: after_hits_def cnt)
  have "fst s = map (\<lambda>i. after_hits hs (?st0 ! i) i) [0 ..< length ?st0]"
    unfolding s_def using rng by (rule fold_hit_enemy_store)
  also have "\<dots> = map (\<lambda>i. ?G (es ! i)) [0 ..< length es]"
    by (rule map_cong) (simp_all add: ah)
  also have "\<dots> = map ?G (map (\<lambda>i. es ! i) [0 ..< length es])"
    by (simp add: comp_def)
  also have "\<dots> = map ?G es" by (simp only: map_nth)
  finally show "fst s = map ?G es" .
  have aw: "award hs (es ! i, True) i = points (es ! i) * int (lethal_hits (health (es ! i))
                                                           (hits_on w (es ! i)))"
    if "i < length es" for i
    using that by (simp add: award_def cnt)
  have "score (snd s) = score w0 + (\<Sum>i < length ?st0. award hs (?st0 ! i) i)"
    unfolding s_def using rng by (rule fold_hit_enemy_score)
  also have "(\<Sum>i < length ?st0. award hs (?st0 ! i) i)
       = (\<Sum>i < length es. points (es ! i) * int (lethal_hits (health (es ! i))
                                                    (hits_on w (es ! i))))"
    by (rule sum.cong) (simp_all add: aw)
  also have "\<dots> = (\<Sum>e\<leftarrow>es. points e * int (lethal_hits (health e) (hits_on w e)))"
    by (simp add: sum_list_sum_nth atLeast0LessThan)
  finally show "score (snd s)
           = score w + (\<Sum>e\<leftarrow>es. points e * int (lethal_hits (health e) (hits_on w e)))"
    by (simp add: w0_def)
  show "bullets (snd s)
           = filter (\<lambda>b. \<forall>e \<in> set es. \<not> colliderect (b_rect b) (e_rect e)) (bullets w)"
  proof -
    have "bullets (snd s) = bullets w0"
      unfolding s_def by (simp add: fold_hit_enemy_bullets)
    also have "\<dots> = filter (\<lambda>b. b \<notin> set (map fst (groupcollide (bullets w) es))) (bullets w)"
      by (simp add: w0_def es_def)
    also have "\<dots> = filter (\<lambda>b. \<forall>e \<in> set es. \<not> colliderect (b_rect b) (e_rect e)) (bullets w)"
      by (rule filter_cong [OF refl]) (simp only: groupcollide_bullets, blast)
    finally show ?thesis .
  qed
  show "player (snd s)
             = (if \<exists>e \<in> set es. has_captured_player e \<and> 0 < lethal_hits (health e) (hits_on w e)
                then player (rescue now w) else player w)"
    if ok: "ships_ok (player w)"
  proof -
    have ok0: "ships_ok (player w0)" using ok by (simp add: w0_def)
    have fr: "frees hs (es ! i, True) i
        = (has_captured_player (es ! i) \<and> 0 < lethal_hits (health (es ! i)) (hits_on w (es ! i)))"
      if "i < length es" for i
      using that by (simp add: frees_def cnt)
    have ex: "(\<exists>i < length ?st0. frees hs (?st0 ! i) i)
        = (\<exists>e \<in> set es. has_captured_player e \<and> 0 < lethal_hits (health e) (hits_on w e))"
    proof -
      let ?Q = "\<lambda>e. has_captured_player e \<and> 0 < lethal_hits (health e) (hits_on w e)"
      have "(\<exists>i < length ?st0. frees hs (?st0 ! i) i) = (\<exists>i < length es. ?Q (es ! i))"
        by (simp add: fr cong: conj_cong)
      also have "\<dots> = (\<exists>e \<in> set es. ?Q e)"
        by (simp only: Bex_def in_set_conv_nth) blast
      finally show ?thesis .
    qed
    have main: "player (snd s)
        = (if \<exists>i < length ?st0. frees hs (?st0 ! i) i
           then player (rescue now w0) else player w0)"
      unfolding s_def using rng ok0 by (rule fold_hit_enemy_player)
    have a: "player (rescue now w0) = player (rescue now w)"
      by (rule rescue_player_cong) (simp add: w0_def)
    have b: "player w0 = player w" by (simp add: w0_def)
    show ?thesis unfolding main ex a b by (rule refl)
  qed
qed


lemma lethal_hits_zero: "(lethal_hits h k = 0) = (k = 0 \<or> 0 < h - int k)"
  using lethal_hits_pos [of h k] by auto

text \<open>
  What one pass of the player's bullets against the enemies does, in general. Every
  bullet that overlaps at least one enemy is gone after the pass, however many enemies it
  overlaps, and the other bullets stay. Every enemy loses one health per bullet that
  overlaps it. An enemy that is hit and whose health ends at 0 or below is removed; the
  others stay, in order. The score grows by the points of an enemy once for each hit
  that leaves its health at 0 or below: once for a destroyed enemy overlapped by no more
  bullets than it had health, and more than once otherwise. If some destroyed enemy
  carried the captured player, the player is the one \<^verbatim>\<open>rescue()\<close> yields, else unchanged
  (for a player of the data model); and on such a hit the rescue comes first: the rescue
  sound precedes the explosion sound.
\<close>

theorem bullet_pass:
  "bullets (bullet_enemy_collisions now w)
     = filter (\<lambda>b. \<forall>e \<in> set (enemies w). \<not> colliderect (b_rect b) (e_rect e)) (bullets w)
   \<and> enemies (bullet_enemy_collisions now w)
     = map (\<lambda>e. e\<lparr>health := health e - int (hits_on w e)\<rparr>)
         (filter (\<lambda>e. hits_on w e = 0 \<or> 0 < health e - int (hits_on w e)) (enemies w))
   \<and> score (bullet_enemy_collisions now w)
     = score w + (\<Sum>e\<leftarrow>enemies w. points e * int (lethal_hits (health e) (hits_on w e)))
   \<and> (ships_ok (player w) \<longrightarrow>
        player (bullet_enemy_collisions now w)
          = (if \<exists>e \<in> set (enemies w).
                  has_captured_player e \<and> 0 < hits_on w e \<and> health e - int (hits_on w e) \<le> 0
             then player (rescue now w) else player w))
   \<and> (int k \<le> h \<longrightarrow> lethal_hits h k = (if 0 < k \<and> int k = h then 1 else 0))
   \<and> (health (fst (st ! i)) \<le> 1 \<and> has_captured_player (fst (st ! i)) \<longrightarrow>
        sounds (snd (hit_enemy now i (st, w))) = sounds w @ [RescueSound, ExplosionSound])"
proof (intro conjI impI)
  note f = bullet_pass_fold [of now w]
  show "bullets (bullet_enemy_collisions now w)
     = filter (\<lambda>b. \<forall>e \<in> set (enemies w). \<not> colliderect (b_rect b) (e_rect e)) (bullets w)"
    unfolding f using bullet_pass_parts(4) [of now w] by simp
  show "score (bullet_enemy_collisions now w)
     = score w + (\<Sum>e\<leftarrow>enemies w. points e * int (lethal_hits (health e) (hits_on w e)))"
    unfolding f using bullet_pass_parts(2) [of now w] by simp
  show "enemies (bullet_enemy_collisions now w)
     = map (\<lambda>e. e\<lparr>health := health e - int (hits_on w e)\<rparr>)
         (filter (\<lambda>e. hits_on w e = 0 \<or> 0 < health e - int (hits_on w e)) (enemies w))"
    unfolding f bullet_pass_parts(1) [of now w]
    by (simp add: filter_map comp_def lethal_hits_zero)
  show "player (bullet_enemy_collisions now w)
          = (if \<exists>e \<in> set (enemies w).
                  has_captured_player e \<and> 0 < hits_on w e \<and> health e - int (hits_on w e) \<le> 0
             then player (rescue now w) else player w)"
    if "ships_ok (player w)"
    unfolding f using bullet_pass_parts(3) [OF that, of now] by (simp add: lethal_hits_pos)
  show "lethal_hits h k = (if 0 < k \<and> int k = h then 1 else 0)" if "int k \<le> h"
    using that by (rule lethal_hits_once)
  show "sounds (snd (hit_enemy now i (st, w))) = sounds w @ [RescueSound, ExplosionSound]"
    if "health (fst (st ! i)) \<le> 1 \<and> has_captured_player (fst (st ! i))"
    using that by (simp add: hit_enemy_step play_def rescue_def Let_def)
qed


theorem bullet_pass_witness:
  "ships_ok (player (add_bullet (Bullet 100 100) (add_bullet (Bullet 310 760) (add_bullet (Bullet 300 760)
        (add_bullet (Bullet 290 760)
          (enemy_player_collisions 0 (spawn 0 [(285, 740, Large)] (new_world 0 (sconst 0)))))))))
   \<and> is_captured (player (add_bullet (Bullet 100 100) (add_bullet (Bullet 310 760) (add_bullet (Bullet 300 760)
        (add_bullet (Bullet 290 760)
          (enemy_player_collisions 0 (spawn 0 [(285, 740, Large)] (new_world 0 (sconst 0)))))))))
   \<and> map has_captured_player (enemies (add_bullet (Bullet 100 100) (add_bullet (Bullet 310 760) (add_bullet (Bullet 300 760)
        (add_bullet (Bullet 290 760)
          (enemy_player_collisions 0 (spawn 0 [(285, 740, Large)] (new_world 0 (sconst 0))))))))) = [True]
   \<and> map health (enemies (add_bullet (Bullet 100 100) (add_bullet (Bullet 310 760) (add_bullet (Bullet 300 760)
        (add_bullet (Bullet 290 760)
          (enemy_player_collisions 0 (spawn 0 [(285, 740, Large)] (new_world 0 (sconst 0))))))))) = [3]
   \<and> bullets (bullet_enemy_collisions 16 (add_bullet (Bullet 100 100) (add_bullet (Bullet 310 760) (add_bullet (Bullet 300 760)
        (add_bullet (Bullet 290 760)
          (enemy_player_collisions 0 (spawn 0 [(285, 740, Large)] (new_world 0 (sconst 0))))))))) = [Bullet 100 100]
   \<and> enemies (bullet_enemy_collisions 16 (add_bullet (Bullet 100 100) (add_bullet (Bullet 310 760) (add_bullet (Bullet 300 760)
        (add_bullet (Bullet 290 760)
          (enemy_player_collisions 0 (spawn 0 [(285, 740, Large)] (new_world 0 (sconst 0))))))))) = []
   \<and> score (bullet_enemy_collisions 16 (add_bullet (Bullet 100 100) (add_bullet (Bullet 310 760) (add_bullet (Bullet 300 760)
        (add_bullet (Bullet 290 760)
          (enemy_player_collisions 0 (spawn 0 [(285, 740, Large)] (new_world 0 (sconst 0))))))))) = 400
   \<and> \<not> is_captured (player (bullet_enemy_collisions 16 (add_bullet (Bullet 100 100) (add_bullet (Bullet 310 760) (add_bullet (Bullet 300 760)
        (add_bullet (Bullet 290 760)
          (enemy_player_collisions 0 (spawn 0 [(285, 740, Large)] (new_world 0 (sconst 0))))))))))
   \<and> combined_ships (player (bullet_enemy_collisions 16 (add_bullet (Bullet 100 100) (add_bullet (Bullet 310 760) (add_bullet (Bullet 300 760)
        (add_bullet (Bullet 290 760)
          (enemy_player_collisions 0 (spawn 0 [(285, 740, Large)] (new_world 0 (sconst 0)))))))))) = 2
   \<and> lethal_hits 3 3 = 1
   \<and> sounds (snd (hit_enemy 16 0 (map (\<lambda>e. (e\<lparr>health := 1\<rparr>, True)) (enemies (add_bullet (Bullet 100 100) (add_bullet (Bullet 310 760) (add_bullet (Bullet 300 760)
        (add_bullet (Bullet 290 760)
          (enemy_player_collisions 0 (spawn 0 [(285, 740, Large)] (new_world 0 (sconst 0))))))))), (add_bullet (Bullet 100 100) (add_bullet (Bullet 310 760) (add_bullet (Bullet 300 760)
        (add_bullet (Bullet 290 760)
          (enemy_player_collisions 0 (spawn 0 [(285, 740, Large)] (new_world 0 (sconst 0)))))))))))
       = [CaptureSound, RescueSound, ExplosionSound]"
  using bullet_pass [of 16 "(add_bullet (Bullet 100 100) (add_bullet (Bullet 310 760) (add_bullet (Bullet 300 760)
        (add_bullet (Bullet 290 760)
          (enemy_player_collisions 0 (spawn 0 [(285, 740, Large)] (new_world 0 (sconst 0))))))))" 3 3 "map (\<lambda>e. (e\<lparr>health := 1\<rparr>, True)) (enemies (add_bullet (Bullet 100 100) (add_bullet (Bullet 310 760) (add_bullet (Bullet 300 760)
        (add_bullet (Bullet 290 760)
          (enemy_player_collisions 0 (spawn 0 [(285, 740, Large)] (new_world 0 (sconst 0)))))))))" 0]
  by (simp add: eval_defs add_bullet_def Bullet_def bullet_enemy_collisions_def groupcollide_def
        hit_enemy_def rescue_def ships_ok_def hits_on_def)

text \<open>
  C6 (the code departs from the claim). A player with double fire shoots once: two
  bullets, 20 pixels apart. Both overlap the same small enemy, which is 20 pixels wide,
  has health 1 and is worth 100 points. The first bullet destroys it: explosion, 100
  points, \<^verbatim>\<open>kill()\<close>. The destroyed enemy is still in the hit list computed for the second
  bullet, so the loop body runs for it again: its health goes to \<open>-1\<close>, there is a second
  explosion, and its points are added a second time. The pass removes both bullets and
  the enemy, as the claim says, but the score ends at 200, not 100.
\<close>

theorem double_award:
  "map points (enemies (shoot 5000 ((spawn 0 [(278, 725, Small)] (new_world 0 (sconst 0)))
      \<lparr>player := (Player 0)\<lparr>has_double_fire := True\<rparr>\<rparr>))) = [100]
   \<and> map health (enemies (shoot 5000 ((spawn 0 [(278, 725, Small)] (new_world 0 (sconst 0)))
      \<lparr>player := (Player 0)\<lparr>has_double_fire := True\<rparr>\<rparr>))) = [1]
   \<and> bullets (shoot 5000 ((spawn 0 [(278, 725, Small)] (new_world 0 (sconst 0)))
      \<lparr>player := (Player 0)\<lparr>has_double_fire := True\<rparr>\<rparr>)) = [Bullet 300 740, Bullet 280 740]
   \<and> score (shoot 5000 ((spawn 0 [(278, 725, Small)] (new_world 0 (sconst 0)))
      \<lparr>player := (Player 0)\<lparr>has_double_fire := True\<rparr>\<rparr>)) = 0
   \<and> score (bullet_enemy_collisions 5000
        (shoot 5000 ((spawn 0 [(278, 725, Small)] (new_world 0 (sconst 0)))
           \<lparr>player := (Player 0)\<lparr>has_double_fire := True\<rparr>\<rparr>))) = 200
   \<and> enemies (bullet_enemy_collisions 5000
        (shoot 5000 ((spawn 0 [(278, 725, Small)] (new_world 0 (sconst 0)))
           \<lparr>player := (Player 0)\<lparr>has_double_fire := True\<rparr>\<rparr>))) = []
   \<and> bullets (bullet_enemy_collisions 5000
        (shoot 5000 ((spawn 0 [(278, 725, Small)] (new_world 0 (sconst 0)))
           \<lparr>player := (Player 0)\<lparr>has_double_fire := True\<rparr>\<rparr>))) = []
   \<and> sounds (bullet_enemy_collisions 5000
        (shoot 5000 ((spawn 0 [(278, 725, Small)] (new_world 0 (sconst 0)))
           \<lparr>player := (Player 0)\<lparr>has_double_fire := True\<rparr>\<rparr>)))
       = [ShootSound, ExplosionSound, ExplosionSound]"
  by (simp add: eval_defs shoot_def add_bullet_def Bullet_def bullet_enemy_collisions_def
        groupcollide_def hit_enemy_def centerx_def top_def)


section \<open>The ship counter in reachable states\<close>

text \<open>
  The invariant \<open>ships_ok\<close>, under which the results on \<^verbatim>\<open>get_captured\<close>, \<^verbatim>\<open>rescue\<close> and
  the bullet pass are stated, holds in every reachable state: only \<^verbatim>\<open>hit\<close> and \<^verbatim>\<open>rescue\<close> write the ship counter, and both keep it
  at 1 or 2.
\<close>

lemma ships_kept_refl: "ships_kept w w"
  by (simp add: ships_kept_def)

lemma ships_kept_trans: "ships_kept w w1 \<Longrightarrow> ships_kept w1 w2 \<Longrightarrow> ships_kept w w2"
  by (simp add: ships_kept_def)

lemma ships_kept_fields:
  "ships_kept w w1 \<Longrightarrow> combined_ships (player w2) = combined_ships (player w1)
     \<Longrightarrow> max_combined_ships (player w2) = max_combined_ships (player w1) \<Longrightarrow> ships_kept w w2"
  by (simp add: ships_kept_def ships_ok_def)

lemma ships_kept_same: "ships_kept w w1 \<Longrightarrow> player w2 = player w1 \<Longrightarrow> ships_kept w w2"
  by (simp add: ships_kept_def)

lemma ships_kept_random_random: "ships_kept w w1 \<Longrightarrow> ships_kept w (snd (random_random w1))"
  by (erule ships_kept_same) (simp add: snd_random_random)

lemma ships_kept_randint: "ships_kept w w1 \<Longrightarrow> ships_kept w (snd (randint a b w1))"
  by (erule ships_kept_same) (simp add: snd_randint)

lemma ships_kept_shoot: "ships_kept w w1 \<Longrightarrow> ships_kept w (shoot now w1)"
  by (erule ships_kept_fields) (simp_all add: shoot_def play_def add_bullet_def Let_def)

lemma ships_kept_hit: "ships_kept w w1 \<Longrightarrow> ships_kept w (hit now w1)"
  using ships_ok_hit [of w1 now] by (simp add: ships_kept_def)

lemma ships_kept_get_captured: "ships_kept w w1 \<Longrightarrow> ships_kept w (get_captured c w1)"
  using ships_ok_get_captured [of w1 c] by (simp add: ships_kept_def)

lemma ships_kept_rescue: "ships_kept w w1 \<Longrightarrow> ships_kept w (rescue now w1)"
  using ships_ok_rescue [of w1 now] by (simp add: ships_kept_def)

lemma ships_kept_process_events:
  "process_events now evs w1 = Some w2 \<Longrightarrow> ships_kept w w1 \<Longrightarrow> ships_kept w w2"
proof (induction now evs w1 rule: process_events.induct)
  case (1 now w1)
  then show ?case by simp
next
  case (2 now evs w1)
  then show ?case by simp
next
  case (3 now evs w1)
  have "ships_kept w (w1\<lparr>running := False\<rparr>)"
    using "3.prems"(2) by (rule ships_kept_same) simp
  with 3 show ?case by simp
next
  case (4 now evs w1)
  have "ships_kept w (shoot now w1)" using "4.prems"(2) by (rule ships_kept_shoot)
  with 4 show ?case by simp
next
  case (5 now evs w1)
  then show ?case by simp
qed

lemma ships_kept_respawn_step: "ships_kept w w1 \<Longrightarrow> ships_kept w (respawn_step now w1)"
  by (erule ships_kept_fields) (simp_all add: respawn_step_def)

lemma ships_kept_update_player: "ships_kept w w1 \<Longrightarrow> ships_kept w (update_player now ks w1)"
  by (erule ships_kept_fields) (simp_all add: update_player_def Let_def)

lemma ships_kept_enemy_shoot: "ships_kept w w1 \<Longrightarrow> ships_kept w (enemy_shoot e w1)"
  by (erule ships_kept_same) (simp add: enemy_shoot_obs)

lemma ships_kept_dive_step: "ships_kept w w1 \<Longrightarrow> ships_kept w (snd (dive_step e w1))"
  by (simp add: dive_step_def split_def Let_def ships_kept_randint ships_kept_get_captured)

lemma ships_kept_update_enemy:
  assumes "ships_kept w w1"
  shows "ships_kept w (snd (update_enemy now e w1))"
proof -
  define e1 where "e1 = e\<lparr>anim_counter := anim_counter e + 1\<rparr>"
  define s2 where "s2 =
    (if can_shoot e1 \<and> now - e_last_shot e1 > e_shoot_delay e1
     then (let (d, wa) = randint 3000 8000 (enemy_shoot e1 w1)
           in (e1\<lparr>e_last_shot := now, e_shoot_delay := d\<rparr>, wa))
     else (e1, w1))"
  define s3 where "s3 =
    (if is_diving (fst s2) then dive_step (fst s2) (snd s2)
     else (formation_step now (fst s2), snd s2))"
  have n2: "ships_kept w (snd s2)"
    using assms by (simp add: s2_def split_def Let_def ships_kept_randint ships_kept_enemy_shoot)
  have n3: "ships_kept w (snd s3)"
    using n2 by (simp add: s3_def ships_kept_dive_step)
  have eq: "snd (update_enemy now e w1) =
     (if has_captured_player (fst s3)
      then (snd s3)\<lparr>player := (player (snd s3))\<lparr>p_rect := (p_rect (player (snd s3)))
              \<lparr>rect_x := rect_x (e_rect (fst s3)) + fst (captured_player_offset (fst s3)),
               rect_y := rect_y (e_rect (fst s3)) + snd (captured_player_offset (fst s3))\<rparr>\<rparr>\<rparr>
      else snd s3)"
    by (simp only: update_enemy_def split_def Let_def s3_def s2_def e1_def
          if_distrib [of snd] snd_conv)
  show ?thesis unfolding eq using n3
    by (simp add: ships_kept_def ships_ok_def)
qed

lemma ships_kept_update_enemies:
  "ships_kept w w1 \<Longrightarrow> ships_kept w (snd (update_enemies now es w1))"
proof (induction es arbitrary: w1)
  case Nil
  then show ?case by simp
next
  case (Cons e es)
  have "ships_kept w (snd (update_enemy now e w1))"
    using Cons.prems by (rule ships_kept_update_enemy)
  from Cons.IH [OF this] show ?case by (simp add: split_def Let_def)
qed

lemma ships_kept_update_all: "ships_kept w w1 \<Longrightarrow> ships_kept w (update_all now ks w1)"
proof -
  assume a: "ships_kept w w1"
  define w2 where "w2 = (update_player now ks w1)
     \<lparr>bullets := List.map_filter update_bullet (bullets (update_player now ks w1)),
      enemy_bullets := List.map_filter update_enemy_bullet
                         (enemy_bullets (update_player now ks w1))\<rparr>"
  have "ships_kept w (update_player now ks w1)" using a by (rule ships_kept_update_player)
  then have "ships_kept w w2" by (rule ships_kept_same) (simp add: w2_def)
  then have "ships_kept w (snd (update_enemies now (enemies w2) w2))"
    by (rule ships_kept_update_enemies)
  then have "ships_kept w ((snd (update_enemies now (enemies w2) w2))
               \<lparr>enemies := fst (update_enemies now (enemies w2) w2)\<rparr>)"
    by (rule ships_kept_same) simp
  then show ?thesis by (simp add: update_all_def Let_def split_def w2_def)
qed

lemma ships_kept_hit_enemy:
  assumes "ships_kept w (snd s)"
  shows "ships_kept w (snd (hit_enemy now i s))"
proof -
  obtain st w1 where s: "s = (st, w1)" by (cases s)
  have k1: "ships_kept w w1" using assms by (simp add: s)
  define wa where
    "wa = (if has_captured_player (fst (st ! i)) then rescue now w1 else w1)"
  have ka: "ships_kept w wa" using k1 by (simp add: wa_def ships_kept_rescue)
  have "ships_kept w ((play ExplosionSound wa)\<lparr>score := score w1 + points (fst (st ! i))\<rparr>)"
    using ka by (rule ships_kept_same) (simp add: play_def)
  then show ?thesis using k1
    by (simp add: s hit_enemy_step wa_def)
qed

lemma ships_kept_fold_hit_enemy:
  "ships_kept w (snd s) \<Longrightarrow> ships_kept w (snd (fold (hit_enemy now) hs s))"
proof (induction hs arbitrary: s)
  case Nil
  then show ?case by simp
next
  case (Cons h hs)
  have "ships_kept w (snd (hit_enemy now h s))"
    using Cons.prems by (rule ships_kept_hit_enemy)
  from Cons.IH [OF this] show ?case by simp
qed

lemma ships_kept_bullet_enemy_collisions:
  assumes "ships_kept w w1"
  shows "ships_kept w (bullet_enemy_collisions now w1)"
proof -
  define w0 where "w0 = w1\<lparr>bullets :=
     filter (\<lambda>b. b \<notin> set (map fst (groupcollide (bullets w1) (enemies w1)))) (bullets w1)\<rparr>"
  define s where "s = fold (hit_enemy now)
     (concat (map snd (groupcollide (bullets w1) (enemies w1))))
     (map (\<lambda>e. (e, True)) (enemies w1), w0)"
  have "ships_kept w w0" using assms by (rule ships_kept_same) (simp add: w0_def)
  then have "ships_kept w (snd (map (\<lambda>e. (e, True)) (enemies w1), w0))" by simp
  then have "ships_kept w (snd s)" unfolding s_def by (rule ships_kept_fold_hit_enemy)
  then have "ships_kept w ((snd s)\<lparr>enemies := map fst (filter snd (fst s))\<rparr>)"
    by (rule ships_kept_same) simp
  then show ?thesis
    unfolding bullet_pass_fold [of now w1] s_def w0_def .
qed

lemma ships_kept_enemy_bullet_collisions:
  "ships_kept w w1 \<Longrightarrow> ships_kept w (enemy_bullet_collisions now w1)"
proof -
  assume a: "ships_kept w w1"
  define w2 where "w2 = w1\<lparr>enemy_bullets :=
     filter (\<lambda>b. \<not> colliderect (p_rect (player w1)) (b_rect b)) (enemy_bullets w1)\<rparr>"
  have n2: "ships_kept w w2" using a by (rule ships_kept_same) (simp add: w2_def)
  then have n3: "ships_kept w (hit now w2)" by (rule ships_kept_hit)
  show ?thesis using a n2 n3
    by (simp add: enemy_bullet_collisions_def Let_def w2_def)
qed

lemma ships_kept_enemy_player_collision:
  assumes "ships_kept w w1"
  shows "ships_kept w (snd (enemy_player_collision now e w1))"
proof -
  define wr where "wr = snd (random_random w1)"
  define wc where "wc = get_captured (eid e) wr"
  have nr: "ships_kept w wr" using assms unfolding wr_def by (rule ships_kept_random_random)
  have nc: "ships_kept w wc" using nr unfolding wc_def by (rule ships_kept_get_captured)
  have n1: "ships_kept w (wc\<lparr>respawning := True, respawn_timer := now,
              player := (player wc)\<lparr>p_rect :=
                set_bottom (WINDOW_HEIGHT - 20)
                  (set_centerx (WINDOW_WIDTH div 2) (p_rect (player wc)))\<rparr>\<rparr>)"
    using nc by (rule ships_kept_fields) simp_all
  have n2: "ships_kept w (hit now wr)" using nr by (rule ships_kept_hit)
  have n3: "ships_kept w (hit now w1)" using assms by (rule ships_kept_hit)
  show ?thesis using nc n1 n2 n3
    by (simp add: enemy_player_collision_def destroy_on_contact_def split_def Let_def
          wc_def wr_def)
qed

lemma ships_kept_enemy_player_loop:
  "ships_kept w w1 \<Longrightarrow> ships_kept w (snd (enemy_player_loop now ecs w1))"
proof (induction ecs arbitrary: w1)
  case Nil
  then show ?case by simp
next
  case (Cons ec ecs)
  obtain e c where ec: "ec = (e, c)" by (cases ec)
  show ?case
  proof (cases c)
    case True
    have "ships_kept w (snd (enemy_player_collision now e w1))"
      using Cons.prems by (rule ships_kept_enemy_player_collision)
    from Cons.IH [OF this] show ?thesis
      using True by (simp add: ec split_def Let_def split: option.split)
  next
    case False
    from Cons.IH [OF Cons.prems] show ?thesis
      using False by (simp add: ec split_def Let_def)
  qed
qed

lemma ships_kept_enemy_player_collisions:
  "ships_kept w w1 \<Longrightarrow> ships_kept w (enemy_player_collisions now w1)"
proof -
  assume a: "ships_kept w w1"
  define s where "s = enemy_player_loop now
     (map (\<lambda>e. (e, colliderect (p_rect (player w1)) (e_rect e))) (enemies w1)) w1"
  have "ships_kept w (snd s)" unfolding s_def using a by (rule ships_kept_enemy_player_loop)
  then have "ships_kept w ((snd s)\<lparr>enemies := fst s\<rparr>)" by (rule ships_kept_same) simp
  then show ?thesis using a
    by (simp add: enemy_player_collisions_def Let_def split_def s_def)
qed

lemma player_grid_cells: "player (grid_cells now cells w) = player w"
  by (simp add: grid_cells_player)

lemma player_spawn: "player (spawn now ps w) = player w"
proof (induction ps arbitrary: w)
  case Nil
  show ?case by simp
next
  case (Cons p ps)
  obtain x y k where p: "p = (x, y, k)" by (cases p)
  show ?case by (simp add: p split_def Let_def Cons.IH add_enemy_def player_Enemy)
qed

lemma player_create_enemies_formation: "player (create_enemies_formation f now w) = player w"
  by (cases f)
     (simp_all only: create_enemies_formation_def Let_def formation.case player_grid_cells
        player_spawn, simp_all)

lemma ships_kept_next_wave: "ships_kept w w1 \<Longrightarrow> ships_kept w (next_wave now w1)"
  by (erule ships_kept_same)
     (simp add: next_wave_def Let_def player_create_enemies_formation play_def)

lemma ships_kept_frame:
  assumes "frame inp w = Some w1"
  shows "ships_kept w w1"
proof -
  obtain wa where pe: "process_events (clock inp) (events inp) w = Some wa"
    using assms by (cases "process_events (clock inp) (events inp) w") (simp_all add: frame_def)
  define wd where "wd = next_wave (clock inp) (enemy_player_collisions (clock inp)
     (enemy_bullet_collisions (clock inp) (bullet_enemy_collisions (clock inp)
        (update_all (clock inp) (pressed inp) (respawn_step (clock inp) wa)))))"
  have w1: "w1 = game_over_check (dive_scheduler (clock inp) wd)"
    using assms by (simp add: frame_def pe resolve_collisions_def wd_def)
  have "ships_kept w wa" using pe ships_kept_refl by (rule ships_kept_process_events)
  then have "ships_kept w wd"
    unfolding wd_def
    by (intro ships_kept_next_wave ships_kept_enemy_player_collisions
          ships_kept_enemy_bullet_collisions ships_kept_bullet_enemy_collisions
          ships_kept_update_all ships_kept_respawn_step)
  then show ?thesis
    unfolding w1 by (rule ships_kept_same) (simp add: game_over_check_def dive_scheduler_obs)
qed

lemma reachable_ships_ok: "reachable w \<Longrightarrow> ships_ok (player w)"
proof (induction rule: reachable.induct)
  case (start now rs)
  show ?case by (simp add: run_game_init_player ships_ok_Player)
next
  case (step w inp w1)
  from ships_kept_frame [OF step.hyps(3)] step.IH show ?case by (simp add: ships_kept_def)
qed


end
